theory Spec2Isabelle
  imports Complex_Main "HOL-Library.Log_Nat"
begin

section \<open>Values, errors and small helpers\<close>

text \<open>
  The observation builder of \<^verbatim>\<open>observations.py\<close> works on numpy arrays of 64-bit floats.
  A finite float is given as the real number it denotes; the two infinities and the
  not-a-number value are kept as separate constructors, because the code stores infinities
  as placeholders and compares against them. Rounding to the nearest float is modelled in
  the speed model, where a quotient of floats is cut to an integer, and in the cumulative
  weights, where integers are summed and stored as floats.
\<close>

datatype fval = NInf | Fin real | PInf | NaN

text \<open>
  The exceptions the code can raise. \<open>OutsideModel\<close> is not one of them: it marks the
  inputs on which the model of \<^verbatim>\<open>np.cumsum\<close> below does not follow numpy.
\<close>

datatype error =
  IndexError | KeyError | ValueError | ZeroDivisionError | OverflowError | AssertionError
  | OutsideModel

type_synonym node = "int \<times> int \<times> int"
type_synonym pos = "int \<times> int"

text \<open>Sequencing of fallible steps: the first raised exception aborts the computation.\<close>

definition ebind :: "error + 'a \<Rightarrow> ('a \<Rightarrow> error + 'b) \<Rightarrow> error + 'b" where
  "ebind m f = (case m of Inl e \<Rightarrow> Inl e | Inr v \<Rightarrow> f v)"

text \<open>Reading \<^verbatim>\<open>xs[i]\<close> for a non-negative index; out of range raises.\<close>

definition lookup :: "'a list \<Rightarrow> nat \<Rightarrow> error + 'a" where
  "lookup xs i = (if i < length xs then Inr (xs ! i) else Inl IndexError)"

text \<open>
  \<^verbatim>\<open>row[:len(xs)] = xs\<close> on a numpy row: the slice is cut at the row's length, and an
  array that is longer than the slice cannot be broadcast into it.
\<close>

definition write_prefix :: "'a list \<Rightarrow> 'a list \<Rightarrow> error + 'a list" where
  "write_prefix row xs =
     (if length xs \<le> length row then Inr (xs @ drop (length xs) row) else Inl ValueError)"

text \<open>Arithmetic of floats with infinities, as far as the code uses it.\<close>

fun fneg :: "fval \<Rightarrow> fval" where
  "fneg NInf = PInf"
| "fneg PInf = NInf"
| "fneg (Fin x) = Fin (- x)"
| "fneg NaN = NaN"

fun fadd :: "fval \<Rightarrow> fval \<Rightarrow> fval" where
  "fadd (Fin x) (Fin y) = Fin (x + y)"
| "fadd NaN _ = NaN"
| "fadd _ NaN = NaN"
| "fadd PInf NInf = NaN"
| "fadd NInf PInf = NaN"
| "fadd PInf _ = PInf"
| "fadd _ PInf = PInf"
| "fadd NInf _ = NInf"
| "fadd _ NInf = NInf"

definition fsub :: "fval \<Rightarrow> fval \<Rightarrow> fval" where
  "fsub a b = fadd a (fneg b)"

text \<open>Division and multiplication of a float by a finite number (signed zeros not modelled).\<close>

fun fdiv :: "fval \<Rightarrow> real \<Rightarrow> fval" where
  "fdiv NaN b = NaN"
| "fdiv (Fin x) b =
     (if b = 0 then (if x > 0 then PInf else if x < 0 then NInf else NaN) else Fin (x / b))"
| "fdiv PInf b = (if b < 0 then NInf else PInf)"
| "fdiv NInf b = (if b < 0 then PInf else NInf)"

fun fmul :: "fval \<Rightarrow> real \<Rightarrow> fval" where
  "fmul NaN b = NaN"
| "fmul (Fin x) b = Fin (x * b)"
| "fmul PInf b = (if b = 0 then NaN else if b < 0 then NInf else PInf)"
| "fmul NInf b = (if b = 0 then NaN else if b < 0 then PInf else NInf)"

fun fceil :: "fval \<Rightarrow> fval" where
  "fceil (Fin x) = Fin (of_int \<lceil>x\<rceil>)"
| "fceil v = v"

text \<open>Comparisons: every comparison with not-a-number is false.\<close>

fun flt :: "fval \<Rightarrow> fval \<Rightarrow> bool" where
  "flt NaN _ = False"
| "flt _ NaN = False"
| "flt (Fin x) (Fin y) = (x < y)"
| "flt NInf NInf = False"
| "flt NInf _ = True"
| "flt _ NInf = False"
| "flt PInf _ = False"
| "flt _ PInf = True"

fun fle :: "fval \<Rightarrow> fval \<Rightarrow> bool" where
  "fle NaN _ = False"
| "fle _ NaN = False"
| "fle a b = (a = b \<or> flt a b)"

section \<open>Rounding to 64-bit floats\<close>

text \<open>
  The finite 64-bit floats are the reals \<open>m * 2\<^sup>e\<close> with an integer \<open>\<bar>m\<bar> < 2\<^sup>5\<^sup>3\<close> and
  \<open>-1074 \<le> e \<le> 971\<close>. An operation on floats returns the float nearest to the exact
  result, a tie going to the even \<open>m\<close>, and an infinity when the nearest value would be
  \<open>2\<^sup>1\<^sup>0\<^sup>2\<^sup>4\<close> or more in magnitude.
\<close>

definition pow2 :: "int \<Rightarrow> real" where
  "pow2 e = (if 0 \<le> e then 2 ^ nat e else 1 / 2 ^ nat (- e))"

text \<open>The exponent \<open>e\<close> with \<open>2\<^sup>e \<le> \<bar>x\<bar> < 2\<^sup>e\<^sup>+\<^sup>1\<close>, for \<open>x \<noteq> 0\<close>.\<close>

definition binary_exponent :: "real \<Rightarrow> int" where
  "binary_exponent x =
     (if 1 \<le> \<bar>x\<bar> then bitlen \<lfloor>\<bar>x\<bar>\<rfloor> - 1 else - bitlen (\<lceil>1 / \<bar>x\<bar>\<rceil> - 1))"

definition round_half_even :: "real \<Rightarrow> int" where
  "round_half_even y =
     (let f = \<lfloor>y\<rfloor>; d = y - of_int f
      in if d < 1 / 2 then f else if 1 / 2 < d then f + 1 else if even f then f else f + 1)"

text \<open>
  The multiple of the spacing of the floats around \<open>x\<close> that is nearest to \<open>x\<close>. The
  spacing is \<open>2\<^sup>e\<^sup>-\<^sup>5\<^sup>2\<close> for the exponent \<open>e\<close> of \<open>x\<close>, and \<open>2\<^sup>-\<^sup>1\<^sup>0\<^sup>7\<^sup>4\<close> below \<open>2\<^sup>-\<^sup>1\<^sup>0\<^sup>2\<^sup>2\<close>.
\<close>

definition nearest_double :: "real \<Rightarrow> real" where
  "nearest_double x =
     (if x = 0 then 0
      else let q = pow2 (max (binary_exponent x) (- 1022) - 52)
           in of_int (round_half_even (x / q)) * q)"

text \<open>The float of an exact result \<open>x\<close>: infinite when the nearest value is beyond the floats.\<close>

definition round_double :: "real \<Rightarrow> fval" where
  "round_double x =
     (let y = nearest_double x
      in if y \<noteq> 0 \<and> 1024 \<le> binary_exponent y then (if 0 < x then PInf else NInf)
         else Fin y)"

text \<open>
  The quotient of a float by a finite float, as numpy computes it: a division by zero gives
  an infinity or not-a-number (with a warning, not an exception).
\<close>

fun float_div :: "fval \<Rightarrow> real \<Rightarrow> fval" where
  "float_div NaN b = NaN"
| "float_div (Fin x) b =
     (if b = 0 then (if x > 0 then PInf else if x < 0 then NInf else NaN)
      else round_double (x / b))"
| "float_div PInf b = (if b < 0 then NInf else PInf)"
| "float_div NInf b = (if b < 0 then PInf else NInf)"

section \<open>Speed and time model\<close>

text \<open>
  \<^verbatim>\<open>SpeedData = namedtuple('SpeedData', ['times', 'remaining'])\<close>: the number of turns an
  agent needs for one cell and the turns left in the current cell.
\<close>

record SpeedData =
  sd_times :: int
  sd_remaining :: int

text \<open>Python's \<^verbatim>\<open>int(x)\<close> on a finite float truncates towards zero.\<close>

definition py_int :: "real \<Rightarrow> int" where
  "py_int x = (if 0 \<le> x then \<lfloor>x\<rfloor> else \<lceil>x\<rceil>)"

text \<open>\<^verbatim>\<open>int(x)\<close> on a float: an infinity raises OverflowError, not-a-number ValueError.\<close>

definition int_of_float :: "fval \<Rightarrow> error + int" where
  "int_of_float v =
     (case v of Fin x \<Rightarrow> Inr (py_int x) | NaN \<Rightarrow> Inl ValueError | _ \<Rightarrow> Inl OverflowError)"

text \<open>
  \<^verbatim>\<open>_init_agents\<close>: \<^verbatim>\<open>times_per_cell = int(np.reciprocal(speed))\<close>, for the float
  \<open>speed\<close>. The reciprocal is the float nearest to \<open>1 / speed\<close>; it is infinite for the
  speed zero and for a speed so small that \<open>1 / speed\<close> is beyond the floats.
\<close>

definition times_per_cell :: "real \<Rightarrow> error + int" where
  "times_per_cell speed = int_of_float (float_div (Fin 1) speed)"

text \<open>\<^verbatim>\<open>np.clip(x, 0.0, 1.0)\<close>.\<close>

definition clip01 :: "real \<Rightarrow> real" where
  "clip01 x = min (max x 0) 1"

text \<open>
  \<^verbatim>\<open>_update_shortest\<close>, the speed part: the turns left in the current cell, for the floats
  \<open>speed\<close> and \<open>position_fraction\<close>. The difference and the quotient are rounded to
  floats. With speed zero the quotient is infinite or not a number, and \<^verbatim>\<open>int\<close> raises.
\<close>

definition remaining_turns_in_cell :: "real \<Rightarrow> real \<Rightarrow> error + int" where
  "remaining_turns_in_cell speed position_fraction =
     (if speed < 1 then
        int_of_float (float_div (round_double (1 - clip01 position_fraction)) speed)
      else Inr 0)"

text \<open>The spec's wording for the per-cell tick count: the reciprocal rounded to the nearest integer.\<close>

definition round_to_int :: "real \<Rightarrow> int" where
  "round_to_int x = round x"

section \<open>Collaborators and the builder's state\<close>

text \<open>
  A path prediction: the nodes of the path, the \<^verbatim>\<open>'weight'\<close> attribute of each of its
  edges (\<^verbatim>\<open>e[2]['weight']\<close>, a number of cells, taken to be a Python int), and its length
  (\<^verbatim>\<open>lenght\<close> in the source), which is infinite when the target cannot be reached.
\<close>

record prediction =
  path :: "node list"
  edges :: "int list"
  lenght :: fval

text \<open>
  Everything \<^verbatim>\<open>CustomObservation\<close> reads from outside \<^verbatim>\<open>observations.py\<close>: the
  environment's agents, the railway encoding and its graph, and the helpers of the module
  \<^verbatim>\<open>utils\<close>, whose source is not part of the files at hand. They are parameters of the model.
\<close>

record world =
  agent_speed :: "nat \<Rightarrow> real"
  position_fraction :: "nat \<Rightarrow> real"
  malfunction :: "nat \<Rightarrow> int"
  agent_done :: "nat \<Rightarrow> bool"
  max_duration :: real
  get_agent_cell :: "nat \<Rightarrow> node option"
  next_node :: "node \<Rightarrow> node \<times> real"
  get_nodes :: "pos \<Rightarrow> node list"
  successors :: "node \<Rightarrow> node list"
  graph_nodes :: "node \<Rightarrow> bool"
  get_index :: "node list \<Rightarrow> node \<Rightarrow> nat option"
  reciprocal_sum :: "int \<Rightarrow> int \<Rightarrow> error + real"
  min_max_scaling ::
    "fval list list list \<Rightarrow> real \<Rightarrow> real \<Rightarrow> real \<Rightarrow> real \<Rightarrow> real option \<Rightarrow> real option
       \<Rightarrow> error + fval list list list"

text \<open>
  The fields of \<^verbatim>\<open>CustomObservation\<close>. \<^verbatim>\<open>speed_data\<close> is a dictionary that
  \<^verbatim>\<open>_init_agents\<close> fills for every handle; the lists and arrays are indexed by handle.
\<close>

record builder =
  max_depth :: nat
  agent_handles :: "nat list"
  speed_data :: "nat \<Rightarrow> SpeedData"
  last_nodes :: "(node \<times> real) list"
  last_positions :: "node list"
  shortest_paths :: "node list list"
  shortest_positions :: "pos list list"
  shortest_cum_weights :: "real list list"

text \<open>\<^verbatim>\<open>self.other_agents[handle] = self.agent_handles - {handle}\<close>.\<close>

definition other_agents :: "builder \<Rightarrow> nat \<Rightarrow> nat list" where
  "other_agents B handle = filter (\<lambda>a. a \<noteq> handle) (agent_handles B)"

text \<open>\<^verbatim>\<open>node[:-1]\<close>: a node without its direction component.\<close>

definition pos_of :: "node \<Rightarrow> pos" where
  "pos_of n = (fst n, fst (snd n))"

text \<open>A loop whose body may raise: the first exception ends it.\<close>

fun efold :: "('a \<Rightarrow> 's \<Rightarrow> error + 's) \<Rightarrow> 'a list \<Rightarrow> 's \<Rightarrow> error + 's" where
  "efold f [] s = Inr s"
| "efold f (x # xs) s = (case f x s of Inl e \<Rightarrow> Inl e | Inr s' \<Rightarrow> efold f xs s')"

fun emap :: "('a \<Rightarrow> error + 'b) \<Rightarrow> 'a list \<Rightarrow> error + 'b list" where
  "emap f [] = Inr []"
| "emap f (x # xs) =
     (case f x of Inl e \<Rightarrow> Inl e
      | Inr y \<Rightarrow> (case emap f xs of Inl e \<Rightarrow> Inl e | Inr ys \<Rightarrow> Inr (y # ys)))"

section \<open>Cumulative weights\<close>

text \<open>
  The initial distance reaches \<^verbatim>\<open>compute_cumulative_weights\<close> as a Python int (the
  remaining turns, from \<^verbatim>\<open>_update_shortest\<close>) or as a float (an entry of the stored
  cumulative weights, from \<^verbatim>\<open>get\<close>).
\<close>

datatype number = PyInt int | NpFloat real


text \<open>
  \<^verbatim>\<open>np.cumsum\<close> of a list of Python ints that all fit 64 bits: the array and its running
  sum have the type \<^verbatim>\<open>int64\<close>, and a sum that leaves the range wraps around.
\<close>

definition int64_range :: "int \<Rightarrow> bool" where
  "int64_range v \<longleftrightarrow> - (2 ^ 63) \<le> v \<and> v < 2 ^ 63"

definition wrap_int64 :: "int \<Rightarrow> int" where
  "wrap_int64 v = (v + 2 ^ 63) mod 2 ^ 64 - 2 ^ 63"

fun cumsum_int64 :: "int \<Rightarrow> int list \<Rightarrow> int list" where
  "cumsum_int64 acc [] = []"
| "cumsum_int64 acc (x # xs) = (let s = wrap_int64 (acc + x) in s # cumsum_int64 s xs)"

text \<open>
  \<^verbatim>\<open>np.cumsum\<close> of a list that starts with a float and goes on with ints that fit 64
  bits: the array has the type \<^verbatim>\<open>float64\<close>, every int is converted to the nearest float,
  and the running sum is rounded at every step.
\<close>

fun float_add :: "fval \<Rightarrow> real \<Rightarrow> fval" where
  "float_add (Fin a) x = round_double (a + x)"
| "float_add v x = v"

fun cumsum_float64 :: "fval \<Rightarrow> real list \<Rightarrow> fval list" where
  "cumsum_float64 acc [] = []"
| "cumsum_float64 acc (x # xs) = (let s = float_add acc x in s # cumsum_float64 s xs)"

text \<open>
  The cumulative weights are kept as reals in the arrays of the model: a running sum that
  has become infinite is outside the model.
\<close>

definition finite_floats :: "fval list \<Rightarrow> error + real list" where
  "finite_floats vs = emap (\<lambda>v. case v of Fin x \<Rightarrow> Inr x | _ \<Rightarrow> Inl OutsideModel) vs"

text \<open>
  \<^verbatim>\<open>compute_cumulative_weights(handle, edges, initial_distance)\<close>: \<^verbatim>\<open>np.cumsum\<close> of the
  initial distance followed by the weights of the edges, each multiplied by the agent's
  \<^verbatim>\<open>times\<close>. The products are Python ints. When one of the ints of the list does not fit
  64 bits numpy gives the array another element type; such a list is outside the model. The
  result is given by the values of the array, which is of type \<^verbatim>\<open>int64\<close> for an int as
  initial distance and of type \<^verbatim>\<open>float64\<close> for a float.
\<close>

definition compute_cumulative_weights ::
    "builder \<Rightarrow> nat \<Rightarrow> int list \<Rightarrow> number \<Rightarrow> error + real list" where
  "compute_cumulative_weights B handle es initial_distance =
     (let weights = map (\<lambda>w. w * sd_times (speed_data B handle)) es in
      case initial_distance of
        PyInt d \<Rightarrow>
          if list_all int64_range (d # weights)
          then Inr (map of_int (cumsum_int64 0 (d # weights)))
          else Inl OutsideModel
      | NpFloat x \<Rightarrow>
          if list_all int64_range weights
          then finite_floats
                 (Fin x # cumsum_float64 (Fin x) (map (\<lambda>v. nearest_double (of_int v)) weights))
          else Inl OutsideModel)"

section \<open>Per-tick arrays of the shortest paths\<close>

text \<open>
  \<^verbatim>\<open>_update_shortest(handle, prediction)\<close>: refresh the agent's \<^verbatim>\<open>remaining\<close>, write its
  shortest path, positions and cumulative weights into the row of the handle, and advance
  the last visited node when the agent's position changed. The cumulative weights are
  integers; the assignment into the row of floats converts each to the nearest float.
\<close>

definition update_shortest :: "world \<Rightarrow> builder \<Rightarrow> nat \<Rightarrow> prediction \<Rightarrow> error + builder" where
  "update_shortest W B handle pr =
     ebind (remaining_turns_in_cell (agent_speed W handle) (position_fraction W handle))
     (\<lambda>remaining_turns.
     let B1 = B\<lparr>speed_data := (speed_data B)
                 (handle := \<lparr>sd_times = sd_times (speed_data B handle),
                             sd_remaining = remaining_turns\<rparr>)\<rparr>
     in
     ebind (lookup (shortest_paths B1) handle) (\<lambda>prow.
     ebind (write_prefix prow (path pr)) (\<lambda>prow'.
     ebind (lookup (shortest_positions B1) handle) (\<lambda>srow.
     ebind (write_prefix srow (map pos_of (path pr))) (\<lambda>srow'.
     ebind (compute_cumulative_weights B1 handle (edges pr) (PyInt remaining_turns))
     (\<lambda>cum_weights.
     ebind (lookup (shortest_cum_weights B1) handle) (\<lambda>wrow.
     ebind (write_prefix wrow (map nearest_double cum_weights)) (\<lambda>wrow'.
     let B2 = B1\<lparr>shortest_paths := (shortest_paths B1)[handle := prow'],
                 shortest_positions := (shortest_positions B1)[handle := srow'],
                 shortest_cum_weights := (shortest_cum_weights B1)[handle := wrow']\<rparr>
     in
     ebind (lookup (path pr) 0) (\<lambda>agent_position.
     ebind (lookup (last_positions B2) handle) (\<lambda>last_position.
     if last_position \<noteq> agent_position then
       (if graph_nodes W agent_position then
          Inr (B2\<lparr>last_nodes := (last_nodes B2)[handle := (agent_position, 0)],
                  last_positions := (last_positions B2)[handle := agent_position]\<rparr>)
        else
          ebind (lookup (last_nodes B2) handle) (\<lambda>ln.
          Inr (B2\<lparr>last_nodes := (last_nodes B2)[handle := (fst ln, snd ln + 1)],
                  last_positions := (last_positions B2)[handle := agent_position]\<rparr>)))
     else Inr B2))))))))))"

text \<open>
  \<^verbatim>\<open>get_many\<close>, before the per-agent observations: fresh arrays (paths and positions filled
  with \<open>-1\<close>, weights with zero), then \<^verbatim>\<open>_update_shortest\<close> for every agent that has a
  prediction. \<^verbatim>\<open>predictions\<close> maps each handle to \<^verbatim>\<open>None\<close> or to the shortest path's
  prediction and the list of the deviation paths' predictions.
\<close>

definition fresh_arrays :: "builder \<Rightarrow> builder" where
  "fresh_arrays B =
     (let n = length (agent_handles B) in
      B\<lparr>shortest_paths := replicate n (replicate (max_depth B) (-1, -1, -1)),
        shortest_positions := replicate n (replicate (max_depth B) (-1, -1)),
        shortest_cum_weights := replicate n (replicate (max_depth B) 0)\<rparr>)"

definition get_many :: "world \<Rightarrow> builder \<Rightarrow> (prediction \<times> prediction list) option list
                          \<Rightarrow> error + builder" where
  "get_many W B predictions =
     efold (\<lambda>(handle, p) B'. case p of None \<Rightarrow> Inr B'
                               | Some (shortest_prediction, deviations) \<Rightarrow>
                                   update_shortest W B' handle shortest_prediction)
       (enumerate 0 predictions) (fresh_arrays B)"

section \<open>Packed positions and weights\<close>

text \<open>
  \<^verbatim>\<open>_get_shortest_packed_positions\<close>, the leading weight of one agent: when the first node
  of the stored shortest path is not the last visited node, the negated turns already spent
  since that node; otherwise the stored first cumulative weight.
\<close>

definition prev_weight :: "builder \<Rightarrow> nat \<Rightarrow> node list \<Rightarrow> error + real" where
  "prev_weight B agent p =
     ebind (lookup p 0) (\<lambda>p0.
     ebind (lookup (last_nodes B) agent) (\<lambda>ln.
     if p0 \<noteq> fst ln then
       Inr (- (snd ln + of_int (sd_times (speed_data B agent))
                 - of_int (sd_remaining (speed_data B agent))))
     else ebind (lookup (shortest_cum_weights B) agent) (\<lambda>wrow. lookup wrow 0)))"

text \<open>
  The two \<^verbatim>\<open>np.hstack\<close> calls: a new first column in front of the columns \<open>1:\<close> of the
  stored arrays. \<^verbatim>\<open>reshape\<close> raises when the number of rows does not fit.
\<close>

definition replace_first_column :: "'a list \<Rightarrow> 'a list list \<Rightarrow> error + 'a list list" where
  "replace_first_column col rows =
     (if length col = length rows then Inr (map2 (\<lambda>c row. c # drop 1 row) col rows)
      else Inl ValueError)"

definition get_shortest_packed_positions ::
    "builder \<Rightarrow> error + (pos list list \<times> real list list)" where
  "get_shortest_packed_positions B =
     (let prev_nodes = map fst (last_nodes B) in
      ebind (emap (\<lambda>(agent, p). prev_weight B agent p) (enumerate 0 (shortest_paths B)))
      (\<lambda>prev_weights.
      ebind (replace_first_column (map pos_of prev_nodes) (shortest_positions B))
      (\<lambda>packed_positions.
      ebind (replace_first_column prev_weights (shortest_cum_weights B))
      (\<lambda>packed_weights. Inr (packed_positions, packed_weights)))))"

section \<open>Conflict detector\<close>

text \<open>\<^verbatim>\<open>M[lo:hi, ch] += 1\<close> on a matrix given as its list of rows.\<close>

definition slice_incr :: "nat \<Rightarrow> nat \<Rightarrow> nat \<Rightarrow> fval list list \<Rightarrow> fval list list" where
  "slice_incr lo hi ch M =
     map (\<lambda>(k, row). if lo \<le> k \<and> k < hi then row[ch := fadd (row ! ch) (Fin 1)] else row)
       (enumerate 0 M)"

text \<open>\<^verbatim>\<open>np.transpose\<close> of a matrix with \<open>ncols\<close> columns.\<close>

definition np_transpose :: "nat \<Rightarrow> 'a list list \<Rightarrow> 'a list list" where
  "np_transpose ncols M = map (\<lambda>c. map (\<lambda>row. row ! c) M) [0..<ncols]"

text \<open>
  The direction test of \<^verbatim>\<open>agents_in_path\<close>: \<open>True\<close> stands for \<^verbatim>\<open>direction = 1\<close> (the
  other direction), \<open>False\<close> for \<^verbatim>\<open>direction = 0\<close> (the same direction).
\<close>

definition other_direction :: "node list \<Rightarrow> nat \<Rightarrow> node \<Rightarrow> node \<Rightarrow> node list \<Rightarrow> bool" where
  "other_direction p index node other_node next_nodes =
     (let different_node = (other_node \<noteq> node);
          more_than_one_choice = (length next_nodes > 1);
          last_node_in_path = (length p \<le> index + 1);
          different_one_choice =
            (\<not> last_node_in_path \<and> length next_nodes > 0 \<and> next_nodes ! 0 \<noteq> p ! (index + 1))
      in different_node \<and> (more_than_one_choice \<or> last_node_in_path \<or> different_one_choice))"

text \<open>
  The update of the stored distance of one node and direction by a new candidate
  \<^verbatim>\<open>distance\<close> (the four-way condition before \<^verbatim>\<open>distances[index, direction] = distance\<close>).
\<close>

definition update_distance :: "fval \<Rightarrow> real \<Rightarrow> fval" where
  "update_distance stored distance =
     (if stored = PInf
         \<or> (distance \<ge> 0 \<and> flt (Fin distance) stored)
         \<or> (distance \<le> 0 \<and> flt stored (Fin distance))
         \<or> (distance \<ge> 0 \<and> flt stored (Fin 0))
      then Fin distance else stored)"

text \<open>
  What \<^verbatim>\<open>agents_in_path\<close> computes for another agent once one of the nodes of its next
  cell is found in the path at \<open>index\<close>: the direction, and the candidate distance (the
  baseline at the index plus the signed turns to reach the other agent).
\<close>

definition conflict :: "builder \<Rightarrow> nat \<Rightarrow> nat \<Rightarrow> node list \<Rightarrow> real list \<Rightarrow> node \<Rightarrow> real
                          \<Rightarrow> node list \<Rightarrow> node \<Rightarrow> nat \<Rightarrow> error + (nat \<times> real)" where
  "conflict B handle agent p cum_weights node next_node_distance next_nodes other_node index =
     ebind (lookup cum_weights index) (\<lambda>cw.
     let mine = speed_data B handle;
         theirs = speed_data B agent;
         distance = (if cw < of_int (sd_times mine)
                     then of_int (sd_remaining mine - sd_times mine) else cw)
     in
     if sd_times theirs = 0 then Inl ZeroDivisionError
     else
       let turns_to_reach_other_agent =
             \<bar>(next_node_distance - of_int (sd_remaining theirs) / of_int (sd_times theirs))
                * of_int (sd_times mine)\<bar>
       in
       if other_direction p index node other_node next_nodes
       then Inr (1, distance + turns_to_reach_other_agent)
       else Inr (0, distance + (- turns_to_reach_other_agent)))"

type_synonym conflict_arrays = "fval list list \<times> fval list list \<times> real list list"

text \<open>The updates of the three arrays for a conflict at \<open>index\<close>.\<close>

definition record_conflict :: "world \<Rightarrow> nat \<Rightarrow> node list \<Rightarrow> nat \<Rightarrow> nat \<Rightarrow> real
                                 \<Rightarrow> conflict_arrays \<Rightarrow> error + conflict_arrays" where
  "record_conflict W agent p index direction distance arrays =
     (case arrays of (num_agents, distances, malfunctions) \<Rightarrow>
      let num_agents1 = slice_incr index (length p) direction num_agents in
      ebind (lookup distances index) (\<lambda>drow.
      let distances1 =
            distances[index := drow[direction := update_distance (drow ! direction) distance]];
          m = malfunction W agent;
          num_agents2 = (if m > 0 then slice_incr index (length p) (direction + 2) num_agents1
                         else num_agents1)
      in
      ebind (lookup malfunctions index) (\<lambda>mrow.
      Inr (num_agents2, distances1,
           (if mrow ! direction < of_int m
            then malfunctions[index := mrow[direction := of_int m]] else malfunctions)))))"

text \<open>
  The loop over the nodes of the other agent's next cell: the first node found in the
  path is recorded, and the loop ends there (\<^verbatim>\<open>break\<close>).
\<close>

fun scan_nodes :: "world \<Rightarrow> builder \<Rightarrow> nat \<Rightarrow> nat \<Rightarrow> node list \<Rightarrow> real list \<Rightarrow> node \<Rightarrow> real
                     \<Rightarrow> node list \<Rightarrow> node list \<Rightarrow> conflict_arrays \<Rightarrow> error + conflict_arrays" where
  "scan_nodes W B handle agent p cum_weights node nnd next_nodes [] arrays = Inr arrays"
| "scan_nodes W B handle agent p cum_weights node nnd next_nodes (other_node # rest) arrays =
     (case get_index W p other_node of
        None \<Rightarrow> scan_nodes W B handle agent p cum_weights node nnd next_nodes rest arrays
      | Some index \<Rightarrow>
          ebind (conflict B handle agent p cum_weights node nnd next_nodes other_node index)
          (\<lambda>(direction, distance). record_conflict W agent p index direction distance arrays))"

text \<open>The body of the loop over the other agents; an agent without a position is skipped.\<close>

definition other_agent_step :: "world \<Rightarrow> builder \<Rightarrow> nat \<Rightarrow> node list \<Rightarrow> real list \<Rightarrow> nat
                                  \<Rightarrow> conflict_arrays \<Rightarrow> error + conflict_arrays" where
  "other_agent_step W B handle p cum_weights agent arrays =
     (case get_agent_cell W agent of
        None \<Rightarrow> Inr arrays
      | Some position \<Rightarrow>
          (case next_node W position of (node, next_node_distance) \<Rightarrow>
             scan_nodes W B handle agent p cum_weights node next_node_distance
               (successors W node) (get_nodes W (pos_of node)) arrays))"

text \<open>
  \<^verbatim>\<open>num_agents[:] = np.array(prev_num_agents)\<close>: a vector of four values (or of one) is
  broadcast to every row; another length cannot be broadcast.
\<close>

definition seed_num_agents :: "nat \<Rightarrow> fval list option \<Rightarrow> error + fval list list" where
  "seed_num_agents depth prev_num_agents =
     (case prev_num_agents of
        None \<Rightarrow> Inr (replicate depth (replicate 4 (Fin 0)))
      | Some prev \<Rightarrow>
          if length prev = 4 then Inr (replicate depth prev)
          else if length prev = 1 then Inr (replicate depth (replicate 4 (prev ! 0)))
          else Inl ValueError)"

definition agents_in_path :: "world \<Rightarrow> builder \<Rightarrow> nat \<Rightarrow> node list \<Rightarrow> real list
                                \<Rightarrow> fval list option \<Rightarrow> error + conflict_arrays" where
  "agents_in_path W B handle p cum_weights prev_num_agents =
     ebind (seed_num_agents (max_depth B) prev_num_agents) (\<lambda>num_agents.
     ebind (efold (other_agent_step W B handle p cum_weights) (other_agents B handle)
              (num_agents, replicate (max_depth B) (replicate 2 PInf),
               replicate (max_depth B) (replicate 2 0)))
     (\<lambda>(num_agents, distances, malfunctions).
        Inr (np_transpose 4 num_agents, np_transpose 2 distances, np_transpose 2 malfunctions)))"

text \<open>
  A row of the agent counts is consistent when its four entries are finite and each count
  of malfunctioning agents (entries 2 and 3) is at most the count of all agents of the same
  direction (entries 0 and 1).
\<close>

fun counts_ok :: "fval list \<Rightarrow> bool" where
  "counts_ok [Fin a, Fin b, Fin c, Fin d] = (c \<le> a \<and> d \<le> b)"
| "counts_ok _ = False"

text \<open>
  A matrix of agent counts of \<open>d\<close> rows is seeded with the row \<open>seed\<close> for a path of \<open>n\<close>
  nodes when every row has four entries, each of them the seed's entry plus a number of
  increments, and the rows from \<open>n\<close> on are the seed itself.
\<close>

definition seeded :: "nat \<Rightarrow> nat \<Rightarrow> fval list \<Rightarrow> fval list list \<Rightarrow> bool" where
  "seeded d n seed M \<longleftrightarrow>
     length M = d
     \<and> (\<forall>k<d. length (M ! k) = 4
               \<and> (\<forall>c<4. \<exists>m::nat. M ! k ! c = fadd (seed ! c) (Fin (of_nat m)))
               \<and> (n \<le> k \<longrightarrow> M ! k = seed))"

section \<open>Target distance and route popularity\<close>

text \<open>\<^verbatim>\<open>distance_from_target\<close>.\<close>

definition distance_from_target :: "builder \<Rightarrow> nat \<Rightarrow> fval \<Rightarrow> node list \<Rightarrow> real list \<Rightarrow> real
                                      \<Rightarrow> error + fval list" where
  "distance_from_target B handle len p cum_weights turns_to_deviation =
     (if len = PInf then Inr (replicate (max_depth B) PInf)
      else
        let max_distance =
              fadd (fmul len (of_int (sd_times (speed_data B handle)))) (Fin turns_to_deviation)
        in
        ebind (write_prefix (replicate (max_depth B) (Fin 0)) (replicate (length p) max_distance))
        (\<lambda>distances.
        if length cum_weights = length distances
        then Inr (map2 (\<lambda>d w. fsub d (Fin w)) distances cum_weights)
        else Inl ValueError))"

text \<open>
  \<^verbatim>\<open>common_nodes(handle, positions)\<close>: for every other agent, \<^verbatim>\<open>np.isin\<close> marks the
  positions that occur in that agent's row of \<^verbatim>\<open>_shortest_positions\<close>, and the marks are
  summed over the agents.
\<close>

definition common_nodes :: "builder \<Rightarrow> nat \<Rightarrow> pos list \<Rightarrow> error + real list" where
  "common_nodes B handle positions =
     (if length positions > 0 then
        ebind (efold (\<lambda>row computed.
                        ebind (lookup (shortest_positions B) row) (\<lambda>theirs.
                        Inr (map2 (\<lambda>q c. c + (if q \<in> set theirs then 1 else 0))
                               positions computed)))
                 (other_agents B handle) (replicate (length positions) 0))
        (\<lambda>computed. write_prefix (replicate (max_depth B) 0) computed)
      else Inr (replicate (max_depth B) 0))"

section \<open>Deadlock predictor\<close>

text \<open>\<^verbatim>\<open>A[agent, k]\<close> on an array with one row per agent.\<close>

definition lookup2 :: "'a list list \<Rightarrow> nat \<Rightarrow> nat \<Rightarrow> error + 'a" where
  "lookup2 A agent k = ebind (lookup A agent) (\<lambda>row. lookup row k)"

text \<open>
  The two tests on my edge \<open>j \<rightarrow> j + 1\<close> and the other agent's edge \<open>i \<rightarrow> i + 1\<close>. The
  second conjunct of \<^verbatim>\<open>intersecting_turns\<close> is only evaluated when the first one holds.
\<close>

definition from_dest_to_source :: "pos list \<Rightarrow> nat \<Rightarrow> pos list \<Rightarrow> nat \<Rightarrow> bool" where
  "from_dest_to_source positions j agent_path i =
     (positions ! j = agent_path ! (i + 1) \<and> positions ! (j + 1) = agent_path ! i)"

definition intersecting_turns :: "real list \<Rightarrow> nat \<Rightarrow> real list list \<Rightarrow> nat \<Rightarrow> nat
                                    \<Rightarrow> error + bool" where
  "intersecting_turns cum_weights j packed_weights agent i =
     ebind (lookup cum_weights j) (\<lambda>mine_in.
     ebind (lookup2 packed_weights agent (i + 1)) (\<lambda>theirs_out.
     if mine_in > theirs_out then Inr False
     else
       ebind (lookup cum_weights (j + 1)) (\<lambda>mine_out.
       ebind (lookup2 packed_weights agent i) (\<lambda>theirs_in.
       Inr (\<not> mine_out < theirs_in)))))"

text \<open>
  The inner loop over my edges for a fixed edge \<open>i\<close> of the other agent: the first edge
  \<open>j\<close> with \<^verbatim>\<open>deadlock_found\<close>, if any.
\<close>

fun scan_path :: "pos list \<Rightarrow> real list \<Rightarrow> pos list \<Rightarrow> real list list \<Rightarrow> nat \<Rightarrow> nat
                    \<Rightarrow> nat list \<Rightarrow> error + nat option" where
  "scan_path positions cum_weights agent_path packed_weights agent i [] = Inr None"
| "scan_path positions cum_weights agent_path packed_weights agent i (j # js) =
     ebind (intersecting_turns cum_weights j packed_weights agent i) (\<lambda>it.
     if from_dest_to_source positions j agent_path i \<and> it then Inr (Some j)
     else scan_path positions cum_weights agent_path packed_weights agent i js)"

text \<open>
  The outer loop over the other agent's edges. Pairs with the filler position \<open>(-1, -1)\<close>
  are skipped. The source updates the arrays at the first edge pair with
  \<^verbatim>\<open>deadlock_found\<close> and leaves both loops; the model returns that pair and applies the
  update afterwards.
\<close>

fun scan_agent_path :: "pos list \<Rightarrow> real list \<Rightarrow> pos list \<Rightarrow> real list list \<Rightarrow> nat
                          \<Rightarrow> nat list \<Rightarrow> error + (nat \<times> nat) option" where
  "scan_agent_path positions cum_weights agent_path packed_weights agent [] = Inr None"
| "scan_agent_path positions cum_weights agent_path packed_weights agent (i # rest) =
     (if agent_path ! i \<noteq> (-1, -1) \<and> agent_path ! (i + 1) \<noteq> (-1, -1) then
        ebind (scan_path positions cum_weights agent_path packed_weights agent i
                 [0..<length positions - 1])
        (\<lambda>found. case found of
           Some j \<Rightarrow> Inr (Some (i, j))
         | None \<Rightarrow> scan_agent_path positions cum_weights agent_path packed_weights agent rest)
      else scan_agent_path positions cum_weights agent_path packed_weights agent rest)"

text \<open>The estimate of the turns until the deadlock (\<^verbatim>\<open>space\<close> and \<^verbatim>\<open>crash_turn\<close>).\<close>

definition crash_turn :: "world \<Rightarrow> builder \<Rightarrow> nat \<Rightarrow> nat \<Rightarrow> real \<Rightarrow> real \<Rightarrow> real \<Rightarrow> error + fval" where
  "crash_turn W B handle agent mine_in mine_out theirs_in =
     (let my_times = of_int (sd_times (speed_data B handle));
          their_times = of_int (sd_times (speed_data B agent));
          space0 = fdiv (Fin (mine_out - mine_in)) my_times;
          space =
            (if mine_in < 0 \<and> theirs_in < 0 then
               fadd (fadd space0 (fdiv (Fin mine_in) my_times)) (fdiv (Fin theirs_in) their_times)
             else if mine_in > theirs_in then
               fsub space0 (fdiv (Fin \<bar>mine_in - \<bar>theirs_in\<bar>\<bar>) their_times)
             else if theirs_in > mine_in then
               fadd space0 (fdiv (Fin \<bar>theirs_in - \<bar>mine_in\<bar>\<bar>) their_times)
             else space0)
      in
      ebind (reciprocal_sum W (sd_times (speed_data B agent)) (sd_times (speed_data B handle)))
      (\<lambda>rs. Inr (fceil (fadd (Fin (max mine_in 0)) (fdiv space rs)))))"

text \<open>\<^verbatim>\<open>deadlocks[lo:hi] += 1\<close>.\<close>

definition incr_from :: "nat \<Rightarrow> nat \<Rightarrow> fval list \<Rightarrow> fval list" where
  "incr_from lo hi xs =
     map (\<lambda>(k, v). if lo \<le> k \<and> k < hi then fadd v (Fin 1) else v) (enumerate 0 xs)"

definition record_deadlock :: "world \<Rightarrow> builder \<Rightarrow> nat \<Rightarrow> nat \<Rightarrow> pos list \<Rightarrow> real list
                                 \<Rightarrow> real list list \<Rightarrow> nat \<Rightarrow> nat \<Rightarrow> fval list \<times> fval list
                                 \<Rightarrow> error + fval list \<times> fval list" where
  "record_deadlock W B handle agent positions cum_weights packed_weights i j arrays =
     (case arrays of (deadlocks, crash_turns) \<Rightarrow>
      ebind (lookup cum_weights j) (\<lambda>mine_in.
      ebind (lookup cum_weights (j + 1)) (\<lambda>mine_out.
      ebind (lookup2 packed_weights agent i) (\<lambda>theirs_in.
      ebind (crash_turn W B handle agent mine_in mine_out theirs_in) (\<lambda>ct.
      ebind (lookup crash_turns j) (\<lambda>stored.
      Inr (incr_from j (length positions) deadlocks,
           (if flt ct stored then crash_turns[j := ct] else crash_turns))))))))"

text \<open>The body of the loop over the other agents.\<close>

definition deadlock_step :: "world \<Rightarrow> builder \<Rightarrow> nat \<Rightarrow> pos list \<Rightarrow> real list \<Rightarrow> pos list list
                               \<Rightarrow> real list list \<Rightarrow> nat \<Rightarrow> fval list \<times> fval list
                               \<Rightarrow> error + fval list \<times> fval list" where
  "deadlock_step W B handle positions cum_weights packed_positions packed_weights agent arrays =
     ebind (lookup packed_positions agent) (\<lambda>agent_path.
     ebind (scan_agent_path positions cum_weights agent_path packed_weights agent
              [0..<length agent_path - 1])
     (\<lambda>found. case found of
        None \<Rightarrow> Inr arrays
      | Some (i, j) \<Rightarrow>
          record_deadlock W B handle agent positions cum_weights packed_weights i j arrays))"

definition find_deadlocks :: "world \<Rightarrow> builder \<Rightarrow> nat \<Rightarrow> pos list \<Rightarrow> real list \<Rightarrow> pos list list
                                \<Rightarrow> real list list \<Rightarrow> fval \<Rightarrow> error + fval list \<times> fval list" where
  "find_deadlocks W B handle positions cum_weights packed_positions packed_weights prev_deadlocks =
     efold (deadlock_step W B handle positions cum_weights packed_positions packed_weights)
       (other_agents B handle)
       (replicate (max_depth B) prev_deadlocks, replicate (max_depth B) PInf)"



section \<open>The feature matrix of a path and the observation of an agent\<close>

text \<open>\<^verbatim>\<open>np.vstack([...]).T\<close>: the rows must have one length; the result has one row per column.\<close>

definition vstack_T :: "'a list list \<Rightarrow> error + 'a list list" where
  "vstack_T rows =
     (case rows of
        [] \<Rightarrow> Inl ValueError
      | r # rs \<Rightarrow>
          if list_all (\<lambda>x. length x = length r) rs
          then Inr (map (\<lambda>k. map (\<lambda>row. row ! k) rows) [0..<length r])
          else Inl ValueError)"

text \<open>
  \<^verbatim>\<open>_fill_path_values\<close>. When \<^verbatim>\<open>turns_to_deviation\<close> is zero the path is treated as the
  shortest path: the stored cumulative weights and the packed positions and weights of the
  agent are used.
\<close>

definition fill_path_values :: "world \<Rightarrow> builder \<Rightarrow> nat \<Rightarrow> prediction \<Rightarrow> pos list list
                                  \<Rightarrow> real list list \<Rightarrow> real \<Rightarrow> fval \<Rightarrow> fval list option
                                  \<Rightarrow> error + fval list list" where
  "fill_path_values W B handle pr packed_positions packed_weights turns_to_deviation
       prev_deadlocks prev_num_agents =
     ebind
       (if turns_to_deviation = 0 then
          ebind (lookup (shortest_cum_weights B) handle) (\<lambda>weights.
          ebind (lookup packed_positions handle) (\<lambda>prow.
          ebind (lookup packed_weights handle) (\<lambda>positions_weights.
          ebind (write_prefix (replicate (max_depth B) 0) weights) (\<lambda>path_weights.
          Inr (take (length (path pr)) prow, positions_weights, path_weights)))))
        else
          ebind (compute_cumulative_weights B handle (edges pr) (NpFloat turns_to_deviation))
          (\<lambda>weights.
          ebind (write_prefix (replicate (max_depth B) 0) weights)
          (\<lambda>path_weights. Inr (map pos_of (path pr), path_weights, path_weights))))
     (\<lambda>(positions, positions_weights, path_weights).
     ebind (agents_in_path W B handle (path pr) path_weights prev_num_agents)
     (\<lambda>(num_agents, agent_distances, malfunctions).
     ebind (distance_from_target B handle (lenght pr) (path pr) path_weights turns_to_deviation)
     (\<lambda>target_distances.
     ebind (common_nodes B handle positions) (\<lambda>c_nodes.
     ebind (find_deadlocks W B handle positions positions_weights packed_positions
              packed_weights prev_deadlocks)
     (\<lambda>(deadlocks, deadlock_distances).
     vstack_T (num_agents @ agent_distances @ map (map Fin) malfunctions
               @ [target_distances, map Fin c_nodes, deadlocks, deadlock_distances]))))))"

section \<open>Normalizer\<close>

definition LOWER :: real where "LOWER = -1"
definition UPPER :: real where "UPPER = 1"
definition UNDER :: real where "UNDER = -2"
definition OVER :: real where "OVER = 2"

text \<open>
  The feature groups are channel ranges of the tensor: \<^verbatim>\<open>obs[:, :, a:b]\<close>. A single
  channel \<^verbatim>\<open>obs[:, :, a]\<close> is kept as the range \<open>a:a+1\<close>, with one value per cell.
\<close>

definition channels :: "nat \<Rightarrow> nat \<Rightarrow> fval list list list \<Rightarrow> fval list list list" where
  "channels a b T = map (map (\<lambda>cell. take (b - a) (drop a cell))) T"

definition shape3 :: "'a list list list \<Rightarrow> nat list list" where
  "shape3 T = map (map length) T"

text \<open>
  \<^verbatim>\<open>obs[:, :, a:b] = S\<close> for a scaled group \<open>S\<close> of the shape of the range; another shape
  is reported as the ValueError of a failed broadcast.
\<close>

definition set_channels :: "nat \<Rightarrow> nat \<Rightarrow> fval list list list \<Rightarrow> fval list list list
                              \<Rightarrow> error + fval list list list" where
  "set_channels a b T S =
     (if shape3 S = shape3 (channels a b T)
      then Inr (map2 (map2 (\<lambda>cell s. take a cell @ s @ drop (a + length s) cell)) T S)
      else Inl ValueError)"

text \<open>The two assignments under \<^verbatim>\<open># Sanity check\<close>, on one entry.\<close>

definition sanity :: "fval \<Rightarrow> fval" where
  "sanity v = (if v = NInf then Fin UNDER else if v = PInf then Fin OVER else v)"

text \<open>The test of the final \<^verbatim>\<open>assert\<close>, on one entry.\<close>

definition in_range :: "fval \<Rightarrow> bool" where
  "in_range v = (fle (Fin UNDER) v \<and> fle v (Fin OVER))"

text \<open>The seven calls of \<^verbatim>\<open>utils.min_max_scaling\<close> and the writes of their results.\<close>

definition rescale :: "world \<Rightarrow> builder \<Rightarrow> fval list list list \<Rightarrow> error + fval list list list" where
  "rescale W B observation =
     (let scale = (\<lambda>values. min_max_scaling W values LOWER UPPER UNDER OVER);
          done_agents = length (filter (agent_done W) (agent_handles B));
          remaining_agents = of_int (int (length (agent_handles B)) - int done_agents)
      in
      ebind (scale (channels 0 4 observation) (Some 0) (Some remaining_agents)) (\<lambda>num_agents.
      ebind (scale (channels 6 8 observation) (Some 0) (Some (max_duration W))) (\<lambda>malfunctions.
      ebind (scale (channels 9 10 observation) (Some 0) (Some (of_nat (max_depth B)))) (\<lambda>c_nodes.
      ebind (scale (channels 10 11 observation) (Some 0) (Some remaining_agents)) (\<lambda>deadlocks.
      ebind (scale (channels 4 6 observation) None None) (\<lambda>agent_distances.
      ebind (scale (channels 8 9 observation) None None) (\<lambda>target_distances.
      ebind (scale (channels 11 12 observation) None None) (\<lambda>deadlock_distances.
      ebind (set_channels 0 4 observation num_agents) (\<lambda>o1.
      ebind (set_channels 4 6 o1 agent_distances) (\<lambda>o2.
      ebind (set_channels 6 8 o2 malfunctions) (\<lambda>o3.
      ebind (set_channels 8 9 o3 target_distances) (\<lambda>o4.
      ebind (set_channels 9 10 o4 c_nodes) (\<lambda>o5.
      ebind (set_channels 10 11 o5 deadlocks) (\<lambda>o6.
      set_channels 11 12 o6 deadlock_distances))))))))))))))"

text \<open>
  \<^verbatim>\<open>normalize(observation)\<close>: scale the groups, replace the infinities that are left, and
  assert that every entry is in the band from \<^verbatim>\<open>UNDER\<close> to \<^verbatim>\<open>OVER\<close>.
\<close>

definition normalize :: "world \<Rightarrow> builder \<Rightarrow> fval list list list \<Rightarrow> error + fval list list list" where
  "normalize W B observation =
     ebind (rescale W B observation) (\<lambda>scaled.
     let normalized_observation = map (map (map sanity)) scaled in
     if list_all (list_all (list_all in_range)) normalized_observation
     then Inr normalized_observation else Inl AssertionError)"

section \<open>The observation of one agent\<close>

text \<open>\<^verbatim>\<open>self.observations[handle][k, :, :] = feats\<close>.\<close>

definition write_row :: "'a list \<Rightarrow> nat \<Rightarrow> 'a \<Rightarrow> error + 'a list" where
  "write_row obs k feats = (if k < length obs then Inr (obs[k := feats]) else Inl IndexError)"

text \<open>
  The body of the loop of \<^verbatim>\<open>get\<close> over the deviation paths: the \<open>i\<close>-th deviation is
  seeded from row \<open>i - 1\<close> of the shortest path's features when \<open>i \<ge> 1\<close>, starts at the
  cumulative weight of index \<open>i\<close> of the shortest path, and fills row \<open>i + 1\<close>.
\<close>

definition deviation_row :: "world \<Rightarrow> builder \<Rightarrow> nat \<Rightarrow> pos list list \<Rightarrow> real list list
                               \<Rightarrow> fval list list \<Rightarrow> nat \<times> prediction \<Rightarrow> fval list list list
                               \<Rightarrow> error + fval list list list" where
  "deviation_row W B handle packed_positions packed_weights shortest_feats ip obs =
     (case ip of (i, deviation_prediction) \<Rightarrow>
      ebind (if i \<ge> 1 then
               ebind (lookup shortest_feats (i - 1)) (\<lambda>row.
               ebind (lookup row 10) (\<lambda>prev_deadlocks. Inr (prev_deadlocks, Some (take 4 row))))
             else Inr (Fin 0, None))
      (\<lambda>(prev_deadlocks, prev_num_agents_values).
      ebind (lookup2 (shortest_cum_weights B) handle i) (\<lambda>turns_to_deviation.
      ebind (fill_path_values W B handle deviation_prediction packed_positions packed_weights
               turns_to_deviation prev_deadlocks prev_num_agents_values)
      (\<lambda>dev_feats. write_row obs (i + 1) dev_feats))))"

text \<open>
  The tensor of \<^verbatim>\<open>get(handle)\<close> before normalization: all \<open>-\<infinity>\<close>, then row 0 from the
  shortest path and row \<open>i + 1\<close> from the \<open>i\<close>-th deviation path. A handle without an
  entry in \<^verbatim>\<open>self.predictions\<close> is a KeyError.
\<close>

definition raw_observation :: "world \<Rightarrow> builder \<Rightarrow> (prediction \<times> prediction list) option list
                                 \<Rightarrow> nat \<Rightarrow> error + fval list list list" where
  "raw_observation W B predictions handle =
     (let empty_obs = replicate (max_depth B) (replicate (max_depth B) (replicate 12 NInf)) in
      if handle < length predictions then
        (case predictions ! handle of
           None \<Rightarrow> Inr empty_obs
         | Some (shortest_path_prediction, deviation_paths_prediction) \<Rightarrow>
             ebind (get_shortest_packed_positions B) (\<lambda>(packed_positions, packed_weights).
             ebind (fill_path_values W B handle shortest_path_prediction packed_positions
                      packed_weights 0 (Fin 0) None)
             (\<lambda>shortest_feats.
             ebind (write_row empty_obs 0 shortest_feats) (\<lambda>obs.
             efold (deviation_row W B handle packed_positions packed_weights shortest_feats)
               (enumerate 0 deviation_paths_prediction) obs))))
      else Inl KeyError)"

text \<open>\<^verbatim>\<open>get(handle)\<close>.\<close>

definition get :: "world \<Rightarrow> builder \<Rightarrow> (prediction \<times> prediction list) option list \<Rightarrow> nat
                     \<Rightarrow> error + fval list list list" where
  "get W B predictions handle = ebind (raw_observation W B predictions handle) (normalize W B)"

section \<open>A sample scene\<close>

text \<open>
  The helpers of the module \<^verbatim>\<open>utils\<close> are parameters of the model; the sample scene needs
  concrete ones. The theorems on the model hold for every choice of the helpers; only the
  evaluations on the sample scene use the three definitions below.
\<close>

text \<open>
  Modelled from the spec: \<^verbatim>\<open>utils.get_index\<close> is not among the source files. The spec
  has the conflict detector look for a node that "appears in this agent's path": the index
  of the first occurrence, or nothing.
\<close>

fun first_index :: "'a list \<Rightarrow> 'a \<Rightarrow> nat option" where
  "first_index [] x = None"
| "first_index (y # ys) x = (if y = x then Some 0 else map_option Suc (first_index ys x))"

text \<open>
  Modelled from the spec: \<^verbatim>\<open>utils.reciprocal_sum\<close> is not among the source files. The
  spec gives the harmonic combination of two per-cell tick counts as
  \<open>times1 * times2 / (times1 + times2)\<close>.
\<close>

definition harmonic :: "int \<Rightarrow> int \<Rightarrow> error + real" where
  "harmonic t1 t2 =
     (if t1 + t2 = 0 then Inl ZeroDivisionError else Inr (of_int (t1 * t2) / of_int (t1 + t2)))"

text \<open>
  Modelled from the spec: \<^verbatim>\<open>utils.min_max_scaling\<close> is not among the source files. The
  spec describes a min-max scaling of the window from the known (or else the empirical)
  minimum to the maximum onto the range from the lower to the upper bound, with values
  outside the window sent to the under and over marks; infinities are left in place for the
  normalizer to replace.
\<close>

fun finite_values :: "fval list \<Rightarrow> real list" where
  "finite_values [] = []"
| "finite_values (Fin x # vs) = x # finite_values vs"
| "finite_values (_ # vs) = finite_values vs"

definition scale_value :: "real \<Rightarrow> real \<Rightarrow> real \<Rightarrow> real \<Rightarrow> real \<Rightarrow> real \<Rightarrow> fval \<Rightarrow> fval" where
  "scale_value lower upper lo_mark hi_mark lo hi v =
     (case v of
        Fin x \<Rightarrow>
          (if x < lo then Fin lo_mark else if x > hi then Fin hi_mark
           else if hi = lo then Fin lower
           else Fin (lower + (x - lo) * (upper - lower) / (hi - lo)))
      | _ \<Rightarrow> v)"

definition linear_scaling ::
    "fval list list list \<Rightarrow> real \<Rightarrow> real \<Rightarrow> real \<Rightarrow> real \<Rightarrow> real option \<Rightarrow> real option
       \<Rightarrow> error + fval list list list" where
  "linear_scaling vals lower upper lo_mark hi_mark known_min known_max =
     (let fs = finite_values (concat (concat vals));
          lo = (case known_min of Some m \<Rightarrow> m | None \<Rightarrow> fold min fs (if fs = [] then 0 else hd fs));
          hi = (case known_max of Some m \<Rightarrow> m | None \<Rightarrow> fold max fs (if fs = [] then 0 else hd fs))
      in Inr (map (map (map (scale_value lower upper lo_mark hi_mark lo hi))) vals))"

text \<open>
  Two agents on one track, heading for each other. Agent 0 stands on the node \<open>(0, 0, 1)\<close>
  and moves one cell per turn along \<open>(0, 0) \<rightarrow> (0, 2) \<rightarrow> (0, 4)\<close>. Agent 1 needs two turns
  per cell, left the node \<open>(0, 6, 3)\<close> two turns ago, is half-way through the cell
  \<open>(0, 5)\<close> and moves along \<open>(0, 4) \<rightarrow> (0, 2) \<rightarrow> (0, 0)\<close>; it is malfunctioning for three
  more turns.
\<close>

definition scene_world :: world where
  "scene_world =
     \<lparr>agent_speed = (\<lambda>h. if h = 0 then 1 else 1 / 2),
      position_fraction = (\<lambda>h. if h = 0 then 0 else 1 / 2),
      malfunction = (\<lambda>h. if h = 0 then 0 else 3),
      agent_done = (\<lambda>h. False),
      max_duration = 10,
      get_agent_cell = (\<lambda>h. if h = 0 then Some (0, 0, 1) else if h = 1 then Some (0, 5, 3) else None),
      next_node = (\<lambda>c. if c = (0, 5, 3) then ((0, 4, 3), 1) else (c, 0)),
      get_nodes = (\<lambda>q. [(fst q, snd q, 1), (fst q, snd q, 3)]),
      successors = (\<lambda>n. if n = (0, 4, 3) then [(0, 2, 3)]
                         else if n = (0, 2, 3) then [(0, 0, 3)]
                         else if n = (0, 0, 1) then [(0, 2, 1)]
                         else if n = (0, 2, 1) then [(0, 4, 1), (1, 3, 1)]
                         else []),
      graph_nodes = (\<lambda>n. fst (snd n) mod 2 = 0),
      get_index = first_index,
      reciprocal_sum = harmonic,
      min_max_scaling = linear_scaling\<rparr>"

definition scene_builder :: builder where
  "scene_builder =
     \<lparr>max_depth = 4,
      agent_handles = [0, 1],
      speed_data = (\<lambda>h. if h = 0 then \<lparr>sd_times = 1, sd_remaining = 0\<rparr>
                          else \<lparr>sd_times = 2, sd_remaining = 1\<rparr>),
      last_nodes = [((0, 0, 1), 0), ((0, 6, 3), 2)],
      last_positions = [(0, 0, 1), (0, 5, 3)],
      shortest_paths = [[(0, 0, 1), (0, 2, 1), (0, 4, 1), (-1, -1, -1)],
                        [(0, 5, 3), (0, 4, 3), (0, 2, 3), (0, 0, 3)]],
      shortest_positions = [[(0, 0), (0, 2), (0, 4), (-1, -1)],
                            [(0, 5), (0, 4), (0, 2), (0, 0)]],
      shortest_cum_weights = [[0, 2, 4, 0], [1, 3, 7, 11]]\<rparr>"

text \<open>The predictions of agent 0: its shortest path and three deviation paths.\<close>

definition scene_shortest :: prediction where
  "scene_shortest = \<lparr>path = [(0, 0, 1), (0, 2, 1), (0, 4, 1)], edges = [2, 2], lenght = Fin 4\<rparr>"

definition scene_deviations :: "prediction list" where
  "scene_deviations =
     [\<lparr>path = [(0, 0, 1), (0, 2, 1), (1, 3, 1), (0, 4, 1)], edges = [2, 1, 1], lenght = Fin 4\<rparr>,
      \<lparr>path = [(0, 2, 1), (1, 3, 1), (0, 4, 1)], edges = [1, 1], lenght = Fin 2\<rparr>,
      \<lparr>path = [(0, 4, 1)], edges = [], lenght = Fin 0\<rparr>]"

text \<open>The prediction of agent 1: its shortest path, without deviation paths.\<close>

definition scene_other :: prediction where
  "scene_other =
     \<lparr>path = [(0, 5, 3), (0, 4, 3), (0, 2, 3), (0, 0, 3)], edges = [1, 2, 2], lenght = Fin 5\<rparr>"

text \<open>The spec's reading of route popularity: membership in the other agents' packed paths.\<close>

definition packed_popularity :: "builder \<Rightarrow> pos list list \<Rightarrow> nat \<Rightarrow> pos \<Rightarrow> nat" where
  "packed_popularity B packed_positions handle q =
     length (filter (\<lambda>a. q \<in> set (packed_positions ! a)) (other_agents B handle))"

section \<open>Basic facts about the helpers\<close>

lemma ebind_Inr: "ebind m f = Inr r \<longleftrightarrow> (\<exists>v. m = Inr v \<and> f v = Inr r)"
  by (cases m) (auto simp: ebind_def)

lemma lookup_Inr: "lookup xs i = Inr v \<longleftrightarrow> i < length xs \<and> v = xs ! i"
  by (auto simp: lookup_def)

lemma emap_Inr:
  "emap f xs = Inr ys \<Longrightarrow> length ys = length xs \<and> (\<forall>i<length xs. f (xs ! i) = Inr (ys ! i))"
proof (induction xs arbitrary: ys)
  case Nil
  then show ?case by simp
next
  case (Cons x xs)
  from Cons.prems obtain y ys' where y: "f x = Inr y" and ys': "emap f xs = Inr ys'"
    and eq: "ys = y # ys'"
    by (auto split: sum.splits)
  from Cons.IH [OF ys'] have len: "length ys' = length xs"
    and nth: "\<forall>i<length xs. f (xs ! i) = Inr (ys' ! i)" by simp_all
  show ?case
  proof (intro conjI allI impI)
    show "length ys = length (x # xs)" using len eq by simp
  next
    fix i assume "i < length (x # xs)"
    then show "f ((x # xs) ! i) = Inr (ys ! i)"
      using y nth eq by (cases i) simp_all
  qed
qed

lemma replace_first_column_Inr:
  assumes "replace_first_column col rows = Inr out" and "k < length rows"
  shows "length col = length rows" and "out ! k = col ! k # drop 1 (rows ! k)"
    and "length out = length rows"
  using assms by (auto simp: replace_first_column_def split: if_splits)

section \<open>The sample scene as a state of the builder\<close>

text \<open>
  The arrays of the sample scene are the ones \<^verbatim>\<open>get_many\<close> computes from the two
  predictions; the speed data and the last visited nodes stay as they are.
\<close>

lemma scene_builder_reached:
  "map_sum id
     (\<lambda>B. (max_depth B, agent_handles B, speed_data B 0, speed_data B 1, last_nodes B,
           last_positions B, shortest_paths B, shortest_positions B, shortest_cum_weights B))
     (get_many scene_world scene_builder
        [Some (scene_shortest, scene_deviations), Some (scene_other, [])])
   = Inr (max_depth scene_builder, agent_handles scene_builder, speed_data scene_builder 0,
          speed_data scene_builder 1, last_nodes scene_builder, last_positions scene_builder,
          shortest_paths scene_builder, shortest_positions scene_builder,
          shortest_cum_weights scene_builder)"
  by code_simp

section \<open>Speed and time model: the tick counts\<close>

text \<open>
  The speed model on the floats \<open>0.1\<close> and \<open>0.5\<close>. The float \<open>0.1\<close> is a little above
  \<open>1/10\<close>, so the exact quotients are a little below 10 and 5; the floats nearest to them are
  10 and 5, and those are cut to integers.
\<close>

lemma speed_model_one_tenth:
  "round_double (1 / 10) = Fin (3602879701896397 / 36028797018963968)
   \<and> times_per_cell (3602879701896397 / 36028797018963968) = Inr 10
   \<and> remaining_turns_in_cell (3602879701896397 / 36028797018963968) (1 / 2) = Inr 5
   \<and> \<lfloor>1 / (3602879701896397 / 36028797018963968 :: real)\<rfloor> = 9"
  by code_simp

text \<open>
  C4. At the speed \<open>0.6\<close> (the float \<open>5404319552844595 / 2\<^sup>5\<^sup>3\<close>) the reciprocal is about
  \<open>1.67\<close>. \<^verbatim>\<open>_init_agents\<close> stores its integer part 1 as the per-cell tick count; the
  nearest integer, which the claim asks for, is 2.
\<close>

theorem times_per_cell_truncates:
  "round_double (3 / 5) = Fin (5404319552844595 / 9007199254740992)
   \<and> times_per_cell (5404319552844595 / 9007199254740992) = Inr 1
   \<and> round_to_int (1 / (5404319552844595 / 9007199254740992)) = 2"
  by code_simp

section \<open>Packed positions and weights: the leading entry\<close>

text \<open>
  C5. For every agent, when the leading node of the stored shortest path differs from the
  agent's last visited node, the packed leading position is that of the last visited node
  and the packed leading weight is \<open>- (ticks since that node + times - remaining)\<close>; when
  they are equal, the leading position and the first cumulative weight are kept; every later
  position and weight is unchanged.
\<close>

theorem packed_leading_node_and_weight:
  assumes ok: "get_shortest_packed_positions B = Inr (packed_positions, packed_weights)"
    and a1: "agent < length (shortest_paths B)"
    and a2: "agent < length (shortest_positions B)"
  shows "(let p = shortest_paths B ! agent;
              last_node = fst (last_nodes B ! agent);
              ticks = snd (last_nodes B ! agent);
              sd = speed_data B agent
          in (p ! 0 \<noteq> last_node \<longrightarrow>
                packed_positions ! agent ! 0 = pos_of last_node
                \<and> packed_weights ! agent ! 0
                    = - (ticks + of_int (sd_times sd) - of_int (sd_remaining sd)))
           \<and> (p ! 0 = last_node \<longrightarrow>
                packed_positions ! agent ! 0 = pos_of (p ! 0)
                \<and> packed_weights ! agent ! 0 = shortest_cum_weights B ! agent ! 0)
           \<and> drop 1 (packed_positions ! agent) = drop 1 (shortest_positions B ! agent)
           \<and> drop 1 (packed_weights ! agent) = drop 1 (shortest_cum_weights B ! agent))"
proof -
  from ok obtain prev_weights where
    pw: "emap (\<lambda>(agent, p). prev_weight B agent p) (enumerate 0 (shortest_paths B))
           = Inr prev_weights"
    and pp: "replace_first_column (map pos_of (map fst (last_nodes B))) (shortest_positions B)
               = Inr packed_positions"
    and pws: "replace_first_column prev_weights (shortest_cum_weights B) = Inr packed_weights"
    by (auto simp: get_shortest_packed_positions_def ebind_Inr Let_def)
  from emap_Inr [OF pw] a1 have len: "length prev_weights = length (shortest_paths B)"
    and one: "prev_weight B agent (shortest_paths B ! agent) = Inr (prev_weights ! agent)"
    by (auto simp: nth_enumerate_eq)
  from pws len have lenw: "length (shortest_cum_weights B) = length (shortest_paths B)"
    by (auto simp: replace_first_column_def split: if_splits)
  with a1 have a3: "agent < length (shortest_cum_weights B)" by simp
  note P = replace_first_column_Inr [OF pp a2]
  note Q = replace_first_column_Inr [OF pws a3]
  from P(1) a2 have a4: "agent < length (last_nodes B)" by simp
  have lead_pos: "packed_positions ! agent ! 0 = pos_of (fst (last_nodes B ! agent))"
    using P(2) a4 by simp
  have lead_w: "packed_weights ! agent ! 0 = prev_weights ! agent"
    using Q(2) by simp
  from one a4 have w:
    "prev_weights ! agent =
       (if shortest_paths B ! agent ! 0 \<noteq> fst (last_nodes B ! agent)
        then - (snd (last_nodes B ! agent) + of_int (sd_times (speed_data B agent))
                 - of_int (sd_remaining (speed_data B agent)))
        else shortest_cum_weights B ! agent ! 0)"
    by (auto simp: prev_weight_def ebind_Inr lookup_Inr split: if_splits)
  show ?thesis
    unfolding Let_def using lead_pos lead_w w P(2) Q(2) by simp
qed

text \<open>
  The theorem on the sample scene: agent 1 is between two nodes (leading weight \<open>-3\<close>, leading
  position \<open>(0, 6)\<close>), agent 0 stands on its last visited node (leading weight kept).
\<close>

theorem packed_leading_node_and_weight_witness:
  "get_shortest_packed_positions scene_builder
     = Inr ([[(0, 0), (0, 2), (0, 4), (- 1, - 1)], [(0, 6), (0, 4), (0, 2), (0, 0)]],
            [[0, 2, 4, 0], [- 3, 3, 7, 11]])
   \<and> shortest_paths scene_builder ! 1 ! 0 \<noteq> fst (last_nodes scene_builder ! 1)
   \<and> [(0, 6), (0, 4), (0, 2), (0, 0)] ! 0 = pos_of (fst (last_nodes scene_builder ! 1))
   \<and> [- 3, 3, 7, 11 :: real] ! 0 = - (2 + 2 - 1)
   \<and> shortest_paths scene_builder ! 0 ! 0 = fst (last_nodes scene_builder ! 0)
   \<and> [0, 2, 4, 0 :: real] ! 0 = shortest_cum_weights scene_builder ! 0 ! 0"
proof -
  have h: "get_shortest_packed_positions scene_builder
     = Inr ([[(0, 0), (0, 2), (0, 4), (- 1, - 1)], [(0, 6), (0, 4), (0, 2), (0, 0)]],
            [[0, 2, 4, 0], [- 3, 3, 7, 11]])"
    by code_simp
  have l1: "1 < length (shortest_paths scene_builder)"
    "1 < length (shortest_positions scene_builder)"
    and l0: "0 < length (shortest_paths scene_builder)"
    "0 < length (shortest_positions scene_builder)"
    by (simp_all add: scene_builder_def)
  show ?thesis
    using h packed_leading_node_and_weight [OF h l1] packed_leading_node_and_weight [OF h l0]
    by (simp add: scene_builder_def Let_def pos_of_def)
qed

section \<open>Conflict detector: the stored distance\<close>

lemma update_distance_cases:
  "update_distance PInf c = Fin c"
  "(0 \<le> s \<and> 0 \<le> c) \<or> (s \<le> 0 \<and> c \<le> 0) \<Longrightarrow>
     update_distance (Fin s) c = (if \<bar>c\<bar> < \<bar>s\<bar> then Fin c else Fin s)"
  "s < 0 \<Longrightarrow> 0 \<le> c \<Longrightarrow> update_distance (Fin s) c = Fin c"
  "0 \<le> s \<Longrightarrow> c < 0 \<Longrightarrow> update_distance (Fin s) c = Fin s"
  by (auto simp: update_distance_def)

text \<open>
  C2 (as amended). When \<^verbatim>\<open>agents_in_path\<close> records a conflict at a node index and
  direction, the stored distance becomes: the candidate, when the stored value is the
  \<open>+\<infinity>\<close> placeholder; the one of strictly smaller magnitude (the stored one on a tie), when
  stored value and candidate are both \<open>\<ge> 0\<close> or both \<open>\<le> 0\<close>; the candidate, when the stored
  value is negative and the candidate is not; and the stored value, when it is finite and
  non-negative and the candidate is negative.
\<close>

theorem distance_tie_break:
  assumes ok: "record_conflict W agent p index direction distance (na, ds, ms) = Inr (na', ds', ms')"
    and dir: "direction < length (ds ! index)"
  shows "(let stored = ds ! index ! direction; new = ds' ! index ! direction in
            (stored = PInf \<longrightarrow> new = Fin distance)
          \<and> (\<forall>s. stored = Fin s \<and> ((0 \<le> s \<and> 0 \<le> distance) \<or> (s \<le> 0 \<and> distance \<le> 0))
                 \<longrightarrow> new = (if \<bar>distance\<bar> < \<bar>s\<bar> then Fin distance else Fin s))
          \<and> (\<forall>s. stored = Fin s \<and> s < 0 \<and> 0 \<le> distance \<longrightarrow> new = Fin distance)
          \<and> (\<forall>s. stored = Fin s \<and> 0 \<le> s \<and> distance < 0 \<longrightarrow> new = Fin s))"
proof -
  from ok have idx: "index < length ds"
    and new: "ds' = ds[index := (ds ! index)[direction :=
                        update_distance (ds ! index ! direction) distance]]"
    by (auto simp: record_conflict_def ebind_Inr lookup_Inr Let_def)
  from new idx dir have "ds' ! index ! direction = update_distance (ds ! index ! direction) distance"
    by simp
  then show ?thesis
    unfolding Let_def using update_distance_cases by auto
qed

text \<open>The theorem on the sample scene: the placeholder gives way to the candidate \<open>9/2\<close>.\<close>

theorem distance_tie_break_witness:
  "record_conflict scene_world 1 (path scene_shortest) 2 1 (9/2)
     (replicate 4 (replicate 4 (Fin 0)), replicate 4 [PInf, PInf], replicate 4 [0, 0])
   = Inr ([[Fin 0, Fin 0, Fin 0, Fin 0], [Fin 0, Fin 0, Fin 0, Fin 0],
           [Fin 0, Fin 1, Fin 0, Fin 1], [Fin 0, Fin 0, Fin 0, Fin 0]],
          [[PInf, PInf], [PInf, PInf], [PInf, Fin (9/2)], [PInf, PInf]],
          [[0, 0], [0, 0], [0, 3], [0, 0]])
   \<and> (1::nat) < length (replicate 4 [PInf, PInf] ! 2)
   \<and> replicate 4 [PInf, PInf] ! 2 ! 1 = PInf"
proof -
  have h: "record_conflict scene_world 1 (path scene_shortest) 2 1 (9/2)
     (replicate 4 (replicate 4 (Fin 0)), replicate 4 [PInf, PInf], replicate 4 [0, 0])
   = Inr ([[Fin 0, Fin 0, Fin 0, Fin 0], [Fin 0, Fin 0, Fin 0, Fin 0],
           [Fin 0, Fin 1, Fin 0, Fin 1], [Fin 0, Fin 0, Fin 0, Fin 0]],
          [[PInf, PInf], [PInf, PInf], [PInf, Fin (9/2)], [PInf, PInf]],
          [[0, 0], [0, 0], [0, 3], [0, 0]])"
    by code_simp
  have d: "(1::nat) < length (replicate 4 [PInf, PInf] ! 2)" by simp
  show ?thesis using h distance_tie_break [OF h d] by simp
qed

text \<open>
  C2 as stated fails in its last part: a stored 3 is not replaced by the negative
  candidate \<open>-1\<close>.
\<close>

theorem negative_candidate_kept_out_counterexample:
  "record_conflict scene_world 1 (path scene_shortest) 2 1 (- 1)
     (replicate 4 (replicate 4 (Fin 0)),
      [[PInf, PInf], [PInf, PInf], [PInf, Fin 3], [PInf, PInf]], replicate 4 [0, 0])
   = Inr ([[Fin 0, Fin 0, Fin 0, Fin 0], [Fin 0, Fin 0, Fin 0, Fin 0],
           [Fin 0, Fin 1, Fin 0, Fin 1], [Fin 0, Fin 0, Fin 0, Fin 0]],
          [[PInf, PInf], [PInf, PInf], [PInf, Fin 3], [PInf, PInf]],
          [[0, 0], [0, 0], [0, 3], [0, 0]])
   \<and> update_distance (Fin 3) (- 1) = Fin 3
   \<and> update_distance (Fin 3) (- 1) \<noteq> Fin (- 1)"
  by code_simp

section \<open>Conflict detector: the direction of a conflict\<close>



lemma efold_invariant:
  assumes "efold f xs s = Inr r" and "P s"
    and "\<And>x a b. x \<in> set xs \<Longrightarrow> P a \<Longrightarrow> f x a = Inr b \<Longrightarrow> P b"
  shows "P r"
  using assms
proof (induction xs arbitrary: s)
  case Nil
  then show ?case by simp
next
  case (Cons x xs)
  from Cons.prems(1) obtain s' where s': "f x s = Inr s'" and rest: "efold f xs s' = Inr r"
    by (auto split: sum.splits)
  have "P s'" using Cons.prems(3) [of x s s'] Cons.prems(2) s' by simp
  show ?case
    by (rule Cons.IH [OF rest \<open>P s'\<close>]) (use Cons.prems(3) in auto)
qed

section \<open>Conflict detector: counts of malfunctioning agents\<close>

lemma slice_incr_length: "length (slice_incr lo hi ch M) = length M"
  by (simp add: slice_incr_def)

lemma slice_incr_nth:
  "k < length M \<Longrightarrow>
   slice_incr lo hi ch M ! k
     = (if lo \<le> k \<and> k < hi then (M ! k)[ch := fadd (M ! k ! ch) (Fin 1)] else M ! k)"
  by (simp add: slice_incr_def nth_enumerate_eq)

lemma counts_ok_cases:
  "counts_ok row \<longleftrightarrow> (\<exists>a b c d. row = [Fin a, Fin b, Fin c, Fin d] \<and> c \<le> a \<and> d \<le> b)"
  by (cases row rule: counts_ok.cases) auto

lemma counts_ok_incr:
  assumes "counts_ok row" and "direction < 2"
  shows "counts_ok (row[direction := fadd (row ! direction) (Fin 1)])"
    and "counts_ok ((row[direction := fadd (row ! direction) (Fin 1)])
           [direction + 2 := fadd (row[direction := fadd (row ! direction) (Fin 1)] ! (direction + 2)) (Fin 1)])"
proof -
  from assms(1) obtain a b c d where row: "row = [Fin a, Fin b, Fin c, Fin d]"
    and le: "c \<le> a" "d \<le> b"
    by (auto simp: counts_ok_cases)
  from assms(2) have "direction = 0 \<or> direction = 1" by auto
  then show "counts_ok (row[direction := fadd (row ! direction) (Fin 1)])"
    using row le by auto
  from \<open>direction = 0 \<or> direction = 1\<close>
  show "counts_ok ((row[direction := fadd (row ! direction) (Fin 1)])
           [direction + 2 := fadd (row[direction := fadd (row ! direction) (Fin 1)] ! (direction + 2)) (Fin 1)])"
    using row le by (auto simp: numeral_2_eq_2 numeral_3_eq_3)
qed

lemma record_conflict_rows_ok:
  assumes ok: "record_conflict W agent p index direction distance (na, ds, ms) = Inr (na', ds', ms')"
    and inv: "\<forall>k<length na. counts_ok (na ! k)" and dir: "direction < 2"
  shows "\<forall>k<length na'. counts_ok (na' ! k)"
proof -
  let ?n1 = "slice_incr index (length p) direction na"
  from ok have na': "na' = (if malfunction W agent > 0
                            then slice_incr index (length p) (direction + 2) ?n1 else ?n1)"
    by (auto simp: record_conflict_def ebind_Inr Let_def)
  show ?thesis
  proof (intro allI impI)
    fix k assume "k < length na'"
    then have k: "k < length na" using na' by (simp add: slice_incr_length split: if_splits)
    with inv have c: "counts_ok (na ! k)" by simp
    show "counts_ok (na' ! k)"
      using k c counts_ok_incr [OF c dir]
      by (simp add: na' slice_incr_nth slice_incr_length)
  qed
qed


lemma record_conflict_length:
  "record_conflict W agent p index direction distance (na, ds, ms) = Inr (na', ds', ms')
   \<Longrightarrow> length na' = length na"
  by (auto simp: record_conflict_def ebind_Inr Let_def slice_incr_length split: if_splits)

lemma scan_nodes_length:
  "scan_nodes W B handle agent p cw node nnd next_nodes nodes (na, ds, ms) = Inr (na', ds', ms')
   \<Longrightarrow> length na' = length na"
proof (induction nodes)
  case Nil
  then show ?case by simp
next
  case (Cons other_node rest)
  then show ?case
    by (cases "get_index W p other_node")
       (auto simp: ebind_Inr dest: record_conflict_length)
qed

lemma other_agent_step_length:
  "other_agent_step W B handle p cw agent (na, ds, ms) = Inr (na', ds', ms')
   \<Longrightarrow> length na' = length na"
  using scan_nodes_length
  by (auto simp: other_agent_step_def split: option.splits prod.splits)

lemma conflict_direction:
  "conflict B handle agent p cw node nnd next_nodes other_node index = Inr (direction, distance)
   \<Longrightarrow> direction < 2"
  by (auto simp: conflict_def ebind_Inr Let_def split: if_splits)

lemma scan_nodes_rows_ok:
  assumes "scan_nodes W B handle agent p cw node nnd next_nodes nodes (na, ds, ms)
             = Inr (na', ds', ms')"
    and "\<forall>k<length na. counts_ok (na ! k)"
  shows "\<forall>k<length na'. counts_ok (na' ! k)"
  using assms
proof (induction nodes)
  case Nil
  then show ?case by simp
next
  case (Cons other_node rest)
  show ?case
  proof (cases "get_index W p other_node")
    case None
    with Cons show ?thesis by simp
  next
    case (Some index)
    with Cons.prems(1) obtain direction distance where
      c: "conflict B handle agent p cw node nnd next_nodes other_node index
            = Inr (direction, distance)"
      and r: "record_conflict W agent p index direction distance (na, ds, ms)
                = Inr (na', ds', ms')"
      by (auto simp: ebind_Inr)
    from record_conflict_rows_ok [OF r Cons.prems(2) conflict_direction [OF c]]
    show ?thesis .
  qed
qed

lemma other_agent_step_rows_ok:
  assumes "other_agent_step W B handle p cw agent (na, ds, ms) = Inr (na', ds', ms')"
    and "\<forall>k<length na. counts_ok (na ! k)"
  shows "\<forall>k<length na'. counts_ok (na' ! k)"
  using assms scan_nodes_rows_ok
  by (auto simp: other_agent_step_def split: option.splits prod.splits)

text \<open>
  C10. When \<^verbatim>\<open>agents_in_path\<close> is called without seeded counts, at every node index the
  count of malfunctioning agents of a direction (rows 2 and 3 of the returned counts) is at
  most the count of all agents of that direction (rows 0 and 1).
\<close>

theorem malfunction_counts_bounded:
  assumes ok: "agents_in_path W B handle p cum_weights None
                 = Inr (num_agents, distances, malfunctions)"
    and k: "k < max_depth B"
  shows "fle (num_agents ! 2 ! k) (num_agents ! 0 ! k)
       \<and> fle (num_agents ! 3 ! k) (num_agents ! 1 ! k)"
proof -
  let ?init = "(replicate (max_depth B) (replicate 4 (Fin 0)),
                replicate (max_depth B) (replicate 2 PInf),
                replicate (max_depth B) (replicate 2 (0::real)))"
  from ok obtain M ds ms where
    run: "efold (other_agent_step W B handle p cum_weights) (other_agents B handle) ?init
            = Inr (M, ds, ms)"
    and out: "num_agents = np_transpose 4 M"
    by (auto simp: agents_in_path_def seed_num_agents_def ebind_Inr)
  let ?P = "\<lambda>s. case s of (na, ds, ms) \<Rightarrow>
               length na = max_depth B \<and> (\<forall>k<length na. counts_ok (na ! k))"
  have init: "?P ?init"
    by (simp add: numeral_eq_Suc)
  have step: "\<And>x a b. x \<in> set (other_agents B handle) \<Longrightarrow> ?P a
                \<Longrightarrow> other_agent_step W B handle p cum_weights x a = Inr b \<Longrightarrow> ?P b"
  proof -
    fix x a b
    assume "?P a" and s: "other_agent_step W B handle p cum_weights x a = Inr b"
    obtain na ds ms where a: "a = (na, ds, ms)" by (cases a) auto
    obtain na' ds' ms' where b: "b = (na', ds', ms')" by (cases b) auto
    from \<open>?P a\<close> a have len: "length na = max_depth B"
      and inv: "\<forall>k<length na. counts_ok (na ! k)" by simp_all
    from other_agent_step_rows_ok [OF s [unfolded a b] inv]
    have inv': "\<forall>k<length na'. counts_ok (na' ! k)" .
    have "length na' = length na"
      using s [unfolded a b] other_agent_step_length by blast
    with inv' len b show "?P b" by simp
  qed
  from efold_invariant [where P = ?P, OF run init step]
  have len: "length M = max_depth B" and inv: "\<forall>k<length M. counts_ok (M ! k)"
    by simp_all
  from inv len k have "counts_ok (M ! k)" by simp
  then obtain a b c d where row: "M ! k = [Fin a, Fin b, Fin c, Fin d]"
    and le: "c \<le> a" "d \<le> b"
    by (auto simp: counts_ok_cases)
  from k len have "num_agents ! 0 ! k = Fin a" "num_agents ! 1 ! k = Fin b"
    "num_agents ! 2 ! k = Fin c" "num_agents ! 3 ! k = Fin d"
    using row by (simp_all add: out np_transpose_def)
  with le show ?thesis by auto
qed

text \<open>The theorem on the sample scene, at the node where agent 1 is met.\<close>

theorem malfunction_counts_bounded_witness:
  "agents_in_path scene_world scene_builder 0 (path scene_shortest) [0, 2, 4, 0] None
     = Inr ([[Fin 0, Fin 0, Fin 0, Fin 0], [Fin 0, Fin 0, Fin 1, Fin 0],
             [Fin 0, Fin 0, Fin 0, Fin 0], [Fin 0, Fin 0, Fin 1, Fin 0]],
            [[PInf, PInf, PInf, PInf], [PInf, PInf, Fin (9 / 2), PInf]],
            [[0, 0, 0, 0], [0, 0, 3, 0]])
   \<and> 2 < max_depth scene_builder
   \<and> fle (Fin 0) (Fin 0) \<and> fle (Fin 1) (Fin 1)"
proof -
  have h: "agents_in_path scene_world scene_builder 0 (path scene_shortest) [0, 2, 4, 0] None
     = Inr ([[Fin 0, Fin 0, Fin 0, Fin 0], [Fin 0, Fin 0, Fin 1, Fin 0],
             [Fin 0, Fin 0, Fin 0, Fin 0], [Fin 0, Fin 0, Fin 1, Fin 0]],
            [[PInf, PInf, PInf, PInf], [PInf, PInf, Fin (9 / 2), PInf]],
            [[0, 0, 0, 0], [0, 0, 3, 0]])"
    by code_simp
  have k: "2 < max_depth scene_builder" by (simp add: scene_builder_def)
  from malfunction_counts_bounded [OF h k]
  have "fle (Fin 0) (Fin 0) \<and> fle (Fin 1) (Fin 1)" by simp
  with h k show ?thesis by blast
qed

section \<open>Route popularity\<close>

lemma common_fold:
  assumes "efold (\<lambda>row computed.
              ebind (lookup SP row) (\<lambda>theirs.
              Inr (map2 (\<lambda>q c. c + (if q \<in> set theirs then 1 else 0)) positions computed)))
             agents acc = Inr r"
    and "length acc = length positions"
  shows "length r = length positions
       \<and> (\<forall>k<length positions.
            r ! k = acc ! k
              + of_nat (length (filter (\<lambda>a. positions ! k \<in> set (SP ! a)) agents)))"
  using assms
proof (induction agents arbitrary: acc)
  case Nil
  then show ?case by simp
next
  case (Cons a agents)
  let ?acc' = "map2 (\<lambda>q c. c + (if q \<in> set (SP ! a) then 1 else 0)) positions acc"
  from Cons.prems(1) have rest:
    "efold (\<lambda>row computed.
              ebind (lookup SP row) (\<lambda>theirs.
              Inr (map2 (\<lambda>q c. c + (if q \<in> set theirs then 1 else 0)) positions computed)))
       agents ?acc' = Inr r"
    by (auto simp: ebind_def lookup_def split: sum.splits if_splits)
  have len: "length ?acc' = length positions" using Cons.prems(2) by simp
  from Cons.IH [OF rest len] Cons.prems(2) show ?case
    by (auto simp: add.assoc)
qed

text \<open>
  C9 (as amended). For every node position of the path under analysis, the value computed
  by \<^verbatim>\<open>common_nodes\<close> is the number of other agents whose row of the stored shortest
  positions (as written by \<^verbatim>\<open>_update_shortest\<close>, before the packing of the leading node)
  contains that position, whatever the direction.
\<close>

theorem common_nodes_counts:
  assumes ok: "common_nodes B handle positions = Inr c_nodes" and k: "k < length positions"
  shows "c_nodes ! k
           = of_nat (length (filter (\<lambda>a. positions ! k \<in> set (shortest_positions B ! a))
                               (other_agents B handle)))"
proof -
  from k have ne: "length positions > 0" by (cases positions) simp_all
  with ok obtain computed where
    run: "efold (\<lambda>row computed.
              ebind (lookup (shortest_positions B) row) (\<lambda>theirs.
              Inr (map2 (\<lambda>q c. c + (if q \<in> set theirs then 1 else 0)) positions computed)))
             (other_agents B handle) (replicate (length positions) 0) = Inr computed"
    and wr: "write_prefix (replicate (max_depth B) 0) computed = Inr c_nodes"
    by (auto simp: common_nodes_def ebind_Inr)
  from common_fold [OF run] k have len: "length computed = length positions"
    and val: "computed ! k
           = of_nat (length (filter (\<lambda>a. positions ! k \<in> set (shortest_positions B ! a))
                               (other_agents B handle)))"
    by simp_all
  from wr have "c_nodes = computed @ drop (length computed) (replicate (max_depth B) 0)"
    by (auto simp: write_prefix_def split: if_splits)
  with len k val show ?thesis by (simp add: nth_append)
qed

text \<open>The theorem on the sample scene: the position \<open>(0, 4)\<close> is on agent 1's shortest path.\<close>

theorem common_nodes_counts_witness:
  "common_nodes scene_builder 0 [(0, 4), (0, 6)] = Inr [1, 0, 0, 0]
   \<and> (0::nat) < length [(0, 4), (0, 6) :: pos]
   \<and> [1, 0, 0, 0 :: real] ! 0
       = of_nat (length (filter (\<lambda>a. [(0, 4), (0, 6)] ! 0 \<in> set (shortest_positions scene_builder ! a))
                           (other_agents scene_builder 0)))"
proof -
  have h: "common_nodes scene_builder 0 [(0, 4), (0, 6)] = Inr [1, 0, 0, 0]" by code_simp
  have k: "(0::nat) < length [(0, 4), (0, 6) :: pos]" by simp
  from h k common_nodes_counts [OF h k] show ?thesis by blast
qed

text \<open>
  C9 as stated, with the packed path of the other agent, fails: the packed path of agent 1
  starts at \<open>(0, 6)\<close>, its stored shortest positions do not contain \<open>(0, 6)\<close>, and
  \<^verbatim>\<open>common_nodes\<close> counts no agent there.
\<close>

theorem popularity_not_packed_counterexample:
  "common_nodes scene_builder 0 [(0, 4), (0, 6)] = Inr [1, 0, 0, 0]
   \<and> get_shortest_packed_positions scene_builder
       = Inr ([[(0, 0), (0, 2), (0, 4), (- 1, - 1)], [(0, 6), (0, 4), (0, 2), (0, 0)]],
              [[0, 2, 4, 0], [- 3, 3, 7, 11]])
   \<and> packed_popularity scene_builder
        [[(0, 0), (0, 2), (0, 4), (- 1, - 1)], [(0, 6), (0, 4), (0, 2), (0, 0)]] 0 (0, 6) = 1
   \<and> [1, 0, 0, 0 :: real] ! 1 \<noteq> of_nat (packed_popularity scene_builder
        [[(0, 0), (0, 2), (0, 4), (- 1, - 1)], [(0, 6), (0, 4), (0, 2), (0, 0)]] 0 (0, 6))"
  by code_simp

section \<open>Deadlock predictor: the flagged pair of edges\<close>







lemma incr_from_length: "length (incr_from lo hi xs) = length xs"
  by (simp add: incr_from_def)

lemma incr_from_nth:
  "k < length xs \<Longrightarrow>
   incr_from lo hi xs ! k = (if lo \<le> k \<and> k < hi then fadd (xs ! k) (Fin 1) else xs ! k)"
  by (simp add: incr_from_def nth_enumerate_eq)

lemma record_deadlock_counts:
  "record_deadlock W B handle agent positions cw pw i j (dl, ct) = Inr (dl', ct')
   \<Longrightarrow> dl' = incr_from j (length positions) dl"
  by (auto simp: record_deadlock_def ebind_Inr)



section \<open>Rounding: integers below \<open>2\<^sup>5\<^sup>3\<close> are floats\<close>





section \<open>Cumulative weights and deadlock counts along a path\<close>

lemma fle_Fin: "fle (Fin x) (Fin y) \<longleftrightarrow> x \<le> y"
  by auto









lemma finite_floats_length: "finite_floats vs = Inr xs \<Longrightarrow> length xs = length vs"
  using emap_Inr [of _ vs xs] by (simp add: finite_floats_def)

lemma cumsum_int64_length: "length (cumsum_int64 acc xs) = length xs"
  by (induction xs arbitrary: acc) (simp_all add: Let_def)

lemma cumsum_float64_length: "length (cumsum_float64 acc xs) = length xs"
  by (induction xs arbitrary: acc) (simp_all add: Let_def)

lemma compute_cumulative_weights_length:
  "compute_cumulative_weights B handle es initial = Inr ws \<Longrightarrow> length ws = Suc (length es)"
  by (cases initial)
     (auto simp: compute_cumulative_weights_def Let_def cumsum_int64_length
                 cumsum_float64_length
           split: if_splits dest!: finite_floats_length)

lemma compute_cumulative_weights_cong:
  "sd_times (speed_data B handle) = sd_times (speed_data B' handle)
   \<Longrightarrow> compute_cumulative_weights B handle es initial
       = compute_cumulative_weights B' handle es initial"
  by (simp add: compute_cumulative_weights_def)








lemma update_shortest_parts:
  assumes ok: "update_shortest W B handle pr = Inr B'"
  shows "\<exists>remaining_turns cum_weights wrow wrow'.
           compute_cumulative_weights
             (B\<lparr>speed_data := (speed_data B)
                   (handle := \<lparr>sd_times = sd_times (speed_data B handle),
                               sd_remaining = remaining_turns\<rparr>)\<rparr>)
             handle (edges pr) (PyInt remaining_turns) = Inr cum_weights
         \<and> lookup (shortest_cum_weights B) handle = Inr wrow
         \<and> write_prefix wrow (map nearest_double cum_weights) = Inr wrow'
         \<and> speed_data B' = (speed_data B)
               (handle := \<lparr>sd_times = sd_times (speed_data B handle),
                           sd_remaining = remaining_turns\<rparr>)
         \<and> shortest_cum_weights B' = (shortest_cum_weights B)[handle := wrow']"
  using ok unfolding update_shortest_def Let_def ebind_Inr
  apply (elim exE conjE)
  subgoal for v va vb vc vd ve vf vg
    apply (rule exI [of _ v], rule exI [of _ ve], rule exI [of _ vf], rule exI [of _ vg])
    apply (auto split: if_splits simp: ebind_Inr)
    done
  done

lemma update_shortest_row:
  assumes ok: "update_shortest W B handle pr = Inr B'"
  shows "map_sum id (map nearest_double)
           (compute_cumulative_weights B' handle (edges pr)
              (PyInt (sd_remaining (speed_data B' handle))))
         = Inr (take (Suc (length (edges pr))) (shortest_cum_weights B' ! handle))"
proof -
  from update_shortest_parts [OF ok] obtain remaining_turns ws wrow wrow' where
    ws: "compute_cumulative_weights
           (B\<lparr>speed_data := (speed_data B)
                 (handle := \<lparr>sd_times = sd_times (speed_data B handle),
                             sd_remaining = remaining_turns\<rparr>)\<rparr>)
           handle (edges pr) (PyInt remaining_turns) = Inr ws"
    and wrow: "lookup (shortest_cum_weights B) handle = Inr wrow"
    and wrow': "write_prefix wrow (map nearest_double ws) = Inr wrow'"
    and sd: "speed_data B' = (speed_data B)
               (handle := \<lparr>sd_times = sd_times (speed_data B handle),
                           sd_remaining = remaining_turns\<rparr>)"
    and scw: "shortest_cum_weights B' = (shortest_cum_weights B)[handle := wrow']"
    by blast
  from wrow have hl: "handle < length (shortest_cum_weights B)" by (simp add: lookup_Inr)
  from wrow' have w: "wrow' = map nearest_double ws @ drop (length ws) wrow"
    by (auto simp: write_prefix_def split: if_splits)
  have len: "length ws = Suc (length (edges pr))"
    by (rule compute_cumulative_weights_length [OF ws])
  have "take (Suc (length (edges pr))) (shortest_cum_weights B' ! handle) = map nearest_double ws"
    using scw hl w len by simp
  moreover have "sd_remaining (speed_data B' handle) = remaining_turns"
    by (simp add: sd)
  moreover have "compute_cumulative_weights B' handle (edges pr) (PyInt remaining_turns) = Inr ws"
    unfolding ws [symmetric] by (rule compute_cumulative_weights_cong) (simp add: sd)
  ultimately show ?thesis by simp
qed

text \<open>
  What \<^verbatim>\<open>_update_shortest\<close> leaves in the agent's row of cumulative weights is stated by
  \<open>update_shortest_row\<close>: the first \<open>len(edges) + 1\<close> entries are the floats of the
  cumulative weights that start at the agent's remaining turns. The theorem below takes this
  as its hypothesis on the row.
\<close>




section \<open>Normalizer: the band of the result\<close>

lemma in_range_iff: "in_range v \<longleftrightarrow> (\<exists>x. v = Fin x \<and> UNDER \<le> x \<and> x \<le> OVER)"
  by (cases v) (auto simp: in_range_def)

lemma sanity_infinite: "sanity NInf = Fin UNDER" "sanity PInf = Fin OVER"
  by (simp_all add: sanity_def)

lemma normalize_assertion:
  assumes "rescale W B observation = Inr scaled"
  shows "normalize W B observation
           = (if list_all (list_all (list_all in_range)) (map (map (map sanity)) scaled)
              then Inr (map (map (map sanity)) scaled) else Inl AssertionError)"
  using assms by (simp add: normalize_def ebind_def)

text \<open>
  C1. Whenever \<^verbatim>\<open>normalize\<close> returns a tensor, every entry of it is a finite value in the
  closed interval from \<open>UNDER = -2\<close> to \<open>OVER = 2\<close>, and the tensor is the scaled one in
  which every entry still equal to \<open>-\<infinity>\<close> has become \<open>-2\<close> and every entry still equal to
  \<open>+\<infinity>\<close> has become \<open>2\<close>. The bound is the test of the final assertion: by
  \<open>normalize_assertion\<close>, a scaled tensor with an entry outside the band (or not a number)
  ends in an AssertionError instead of a result. The scaling function is a parameter.
\<close>

theorem normalize_in_band:
  assumes ok: "normalize W B observation = Inr out"
  shows "(\<forall>row\<in>set out. \<forall>cell\<in>set row. \<forall>v\<in>set cell.
            \<exists>x. v = Fin x \<and> - 2 \<le> x \<and> x \<le> 2)
       \<and> (\<exists>scaled. rescale W B observation = Inr scaled
             \<and> out = map (map (map (\<lambda>v. if v = NInf then Fin (- 2)
                                         else if v = PInf then Fin 2 else v))) scaled)"
proof -
  from ok obtain scaled where sc: "rescale W B observation = Inr scaled"
    and out: "out = map (map (map sanity)) scaled"
    and chk: "list_all (list_all (list_all in_range)) out"
    by (auto simp: normalize_def ebind_Inr Let_def split: if_splits)
  have band: "\<forall>row\<in>set out. \<forall>cell\<in>set row. \<forall>v\<in>set cell.
            \<exists>x. v = Fin x \<and> - 2 \<le> x \<and> x \<le> 2"
    using chk by (auto simp: list_all_iff in_range_iff UNDER_def OVER_def)
  have "sanity = (\<lambda>v. if v = NInf then Fin (- 2) else if v = PInf then Fin 2 else v)"
    by (rule ext) (simp add: sanity_def UNDER_def OVER_def)
  with sc out band show ?thesis by auto
qed


text \<open>The theorem on one cell of the sample scene, with both infinities present.\<close>

theorem normalize_in_band_witness:
  "normalize scene_world scene_builder
     [[[Fin 0, Fin 1, Fin 0, Fin 1, PInf, Fin (9/2), Fin 0, Fin 3, Fin 0, Fin 1, Fin 1, NInf]]]
   = Inr [[[Fin (- 1), Fin 0, Fin (- 1), Fin 0, Fin 2, Fin (- 1), Fin (- 1),
            Fin (- (2 / 5)), Fin (- 1), Fin (- (1 / 2)), Fin 0, Fin (- 2)]]]
   \<and> (\<exists>scaled. rescale scene_world scene_builder
          [[[Fin 0, Fin 1, Fin 0, Fin 1, PInf, Fin (9/2), Fin 0, Fin 3, Fin 0, Fin 1, Fin 1, NInf]]]
          = Inr scaled
        \<and> [[[Fin (- 1), Fin 0, Fin (- 1), Fin 0, Fin 2, Fin (- 1), Fin (- 1),
              Fin (- (2 / 5)), Fin (- 1), Fin (- (1 / 2)), Fin 0, Fin (- 2)]]]
          = map (map (map (\<lambda>v. if v = NInf then Fin (- 2)
                                 else if v = PInf then Fin 2 else v))) scaled)"
proof -
  have h: "normalize scene_world scene_builder
     [[[Fin 0, Fin 1, Fin 0, Fin 1, PInf, Fin (9/2), Fin 0, Fin 3, Fin 0, Fin 1, Fin 1, NInf]]]
   = Inr [[[Fin (- 1), Fin 0, Fin (- 1), Fin 0, Fin 2, Fin (- 1), Fin (- 1),
            Fin (- (2 / 5)), Fin (- 1), Fin (- (1 / 2)), Fin 0, Fin (- 2)]]]"
    by code_simp
  from normalize_in_band [OF h] have
    "\<exists>scaled. rescale scene_world scene_builder
          [[[Fin 0, Fin 1, Fin 0, Fin 1, PInf, Fin (9/2), Fin 0, Fin 3, Fin 0, Fin 1, Fin 1, NInf]]]
          = Inr scaled
        \<and> [[[Fin (- 1), Fin 0, Fin (- 1), Fin 0, Fin 2, Fin (- 1), Fin (- 1),
              Fin (- (2 / 5)), Fin (- 1), Fin (- (1 / 2)), Fin 0, Fin (- 2)]]]
          = map (map (map (\<lambda>v. if v = NInf then Fin (- 2)
                                 else if v = PInf then Fin 2 else v))) scaled"
    by (rule conjunct2)
  with h show ?thesis by (rule conjI)
qed

section \<open>Deviation paths: what they inherit from the shortest path\<close>

lemma fadd_zero: "fadd p (Fin 0) = p"
  by (cases p) simp_all

lemma fadd_Fin_assoc: "fadd (fadd p (Fin a)) (Fin b) = fadd p (Fin (a + b))"
  by (cases p) simp_all

lemma record_conflict_counts:
  assumes "record_conflict W agent p index direction distance (na, ds, ms) = Inr (na', ds', ms')"
  shows "na' = slice_incr index (length p) direction na
       \<or> na' = slice_incr index (length p) (direction + 2)
                 (slice_incr index (length p) direction na)"
  using assms by (auto simp: record_conflict_def ebind_Inr Let_def split: if_splits)

lemma scan_nodes_counts:
  assumes "scan_nodes W B handle agent p cw node nnd next_nodes nodes (na, ds, ms)
             = Inr (na', ds', ms')"
  shows "na' = na
       \<or> (\<exists>index direction.
             na' = slice_incr index (length p) direction na
           \<or> na' = slice_incr index (length p) (direction + 2)
                     (slice_incr index (length p) direction na))"
  using assms
proof (induction nodes)
  case Nil
  then show ?case by simp
next
  case (Cons other_node rest)
  show ?case
  proof (cases "get_index W p other_node")
    case None
    with Cons show ?thesis by simp
  next
    case (Some index)
    with Cons.prems obtain direction distance where
      "record_conflict W agent p index direction distance (na, ds, ms) = Inr (na', ds', ms')"
      by (auto simp: ebind_Inr)
    from record_conflict_counts [OF this] show ?thesis by blast
  qed
qed

lemma other_agent_step_counts:
  assumes "other_agent_step W B handle p cw agent (na, ds, ms) = Inr (na', ds', ms')"
  shows "na' = na
       \<or> (\<exists>index direction.
             na' = slice_incr index (length p) direction na
           \<or> na' = slice_incr index (length p) (direction + 2)
                     (slice_incr index (length p) direction na))"
  using assms scan_nodes_counts
  by (auto simp: other_agent_step_def split: option.splits prod.splits)

lemma seeded_slice_incr:
  assumes "seeded d n seed M"
  shows "seeded d n seed (slice_incr index n ch M)"
  unfolding seeded_def
proof (intro conjI allI impI)
  from assms show "length (slice_incr index n ch M) = d"
    by (simp add: seeded_def slice_incr_length)
next
  fix k assume k: "k < d"
  with assms have kl: "k < length M" and l4: "length (M ! k) = 4" by (simp_all add: seeded_def)
  then show "length (slice_incr index n ch M ! k) = 4"
    by (simp add: slice_incr_nth)
next
  fix k c assume k: "k < d" and c: "c < (4::nat)"
  with assms have kl: "k < length M" and l4: "length (M ! k) = 4"
    and ex: "\<exists>m::nat. M ! k ! c = fadd (seed ! c) (Fin (of_nat m))"
    by (simp_all add: seeded_def)
  from ex obtain m :: nat where m: "M ! k ! c = fadd (seed ! c) (Fin (of_nat m))" by blast
  show "\<exists>m::nat. slice_incr index n ch M ! k ! c = fadd (seed ! c) (Fin (of_nat m))"
  proof (cases "index \<le> k \<and> k < n \<and> c = ch")
    case True
    with kl l4 c m have "slice_incr index n ch M ! k ! c = fadd (seed ! c) (Fin (of_nat (Suc m)))"
      by (simp add: slice_incr_nth fadd_Fin_assoc add.commute)
    then show ?thesis by blast
  next
    case False
    with kl m have "slice_incr index n ch M ! k ! c = fadd (seed ! c) (Fin (of_nat m))"
      by (auto simp: slice_incr_nth)
    then show ?thesis by blast
  qed
next
  fix k assume k: "k < d" and nk: "n \<le> k"
  with assms have kl: "k < length M" and s: "M ! k = seed" by (simp_all add: seeded_def)
  with nk show "slice_incr index n ch M ! k = seed"
    by (simp add: slice_incr_nth)
qed


lemma record_conflict_lengths:
  "record_conflict W agent p index direction distance (na, ds, ms) = Inr (na', ds', ms')
   \<Longrightarrow> length ds' = length ds \<and> length ms' = length ms"
  by (auto simp: record_conflict_def ebind_Inr Let_def split: if_splits)

lemma scan_nodes_lengths:
  "scan_nodes W B handle agent p cw node nnd next_nodes nodes (na, ds, ms) = Inr (na', ds', ms')
   \<Longrightarrow> length ds' = length ds \<and> length ms' = length ms"
proof (induction nodes)
  case Nil
  then show ?case by simp
next
  case (Cons other_node rest)
  then show ?case
    by (cases "get_index W p other_node")
       (auto simp: ebind_Inr dest: record_conflict_lengths)
qed

lemma other_agent_step_lengths:
  "other_agent_step W B handle p cw agent (na, ds, ms) = Inr (na', ds', ms')
   \<Longrightarrow> length ds' = length ds \<and> length ms' = length ms"
  using scan_nodes_lengths
  by (auto simp: other_agent_step_def split: option.splits prod.splits)

lemma agents_in_path_seeded:
  assumes ok: "agents_in_path W B handle p cw prev = Inr (na, ad, mf)"
    and seed: "seed_num_agents (max_depth B) prev = Inr (replicate (max_depth B) seed)"
    and l4: "length seed = 4"
  shows "\<exists>M. seeded (max_depth B) (length p) seed M \<and> na = np_transpose 4 M
           \<and> length ad = 2 \<and> length mf = 2
           \<and> (\<forall>r\<in>set ad. length r = max_depth B) \<and> (\<forall>r\<in>set mf. length r = max_depth B)"
proof -
  let ?init = "(replicate (max_depth B) seed, replicate (max_depth B) (replicate 2 PInf),
                replicate (max_depth B) (replicate 2 (0::real)))"
  from ok seed obtain M ds ms where
    run: "efold (other_agent_step W B handle p cw) (other_agents B handle) ?init
            = Inr (M, ds, ms)"
    and out: "na = np_transpose 4 M" "ad = np_transpose 2 ds" "mf = np_transpose 2 ms"
    by (auto simp: agents_in_path_def ebind_Inr)
  let ?P = "\<lambda>s. case s of (na, ds, ms) \<Rightarrow>
              seeded (max_depth B) (length p) seed na
              \<and> length ds = max_depth B \<and> length ms = max_depth B"
  have init: "?P ?init"
    using l4 by (auto simp: seeded_def fadd_zero intro: exI [of _ 0])
  have step: "\<And>x a b. x \<in> set (other_agents B handle) \<Longrightarrow> ?P a
                \<Longrightarrow> other_agent_step W B handle p cw x a = Inr b \<Longrightarrow> ?P b"
  proof -
    fix x a b
    assume pa: "?P a" and s: "other_agent_step W B handle p cw x a = Inr b"
    obtain na1 ds1 ms1 where a: "a = (na1, ds1, ms1)" by (cases a) auto
    obtain na2 ds2 ms2 where b: "b = (na2, ds2, ms2)" by (cases b) auto
    from pa a have sd: "seeded (max_depth B) (length p) seed na1"
      and lens: "length ds1 = max_depth B" "length ms1 = max_depth B" by simp_all
    from other_agent_step_counts [OF s [unfolded a b]] sd
    have "seeded (max_depth B) (length p) seed na2"
      by (auto intro: seeded_slice_incr)
    moreover have "length ds2 = length ds1 \<and> length ms2 = length ms1"
      using s [unfolded a b] by (rule other_agent_step_lengths)
    ultimately show "?P b" using b lens by simp
  qed
  from efold_invariant [where P = ?P, OF run init step]
  have sd: "seeded (max_depth B) (length p) seed M"
    and lens: "length ds = max_depth B" "length ms = max_depth B" by simp_all
  show ?thesis
    using sd out lens by (auto simp: np_transpose_def)
qed

lemma deadlock_step_counts:
  assumes "deadlock_step W B handle positions cw pp pw agent (dl, ct) = Inr (dl', ct')"
  shows "dl' = dl \<or> (\<exists>j. dl' = incr_from j (length positions) dl)"
  using assms
  by (auto simp: deadlock_step_def ebind_Inr split: option.splits
           dest: record_deadlock_counts)

lemma find_deadlocks_baseline:
  assumes ok: "find_deadlocks W B handle positions cw pp pw prev = Inr (dl, ct)"
  shows "length dl = max_depth B \<and> length ct = max_depth B
       \<and> (\<forall>k<max_depth B. (\<exists>m::nat. dl ! k = fadd prev (Fin (of_nat m)))
                          \<and> (length positions \<le> k \<longrightarrow> dl ! k = prev))"
proof -
  let ?Q = "\<lambda>s. case s of (dl, ct) \<Rightarrow>
               length dl = max_depth B \<and> length ct = max_depth B
               \<and> (\<forall>k<max_depth B. (\<exists>m::nat. dl ! k = fadd prev (Fin (of_nat m)))
                                  \<and> (length positions \<le> k \<longrightarrow> dl ! k = prev))"
  let ?init = "(replicate (max_depth B) prev, replicate (max_depth B) PInf)"
  have init: "?Q ?init"
    by (auto simp: fadd_zero intro: exI [of _ 0])
  have step: "\<And>x a b. x \<in> set (other_agents B handle) \<Longrightarrow> ?Q a
                \<Longrightarrow> deadlock_step W B handle positions cw pp pw x a = Inr b \<Longrightarrow> ?Q b"
  proof -
    fix x a b
    assume qa: "?Q a" and s: "deadlock_step W B handle positions cw pp pw x a = Inr b"
    obtain dl1 ct1 where a: "a = (dl1, ct1)" by (cases a) auto
    obtain dl2 ct2 where b: "b = (dl2, ct2)" by (cases b) auto
    from qa a have len: "length dl1 = max_depth B" and lenc: "length ct1 = max_depth B"
      and inv: "\<forall>k<max_depth B. (\<exists>m::nat. dl1 ! k = fadd prev (Fin (of_nat m)))
                                  \<and> (length positions \<le> k \<longrightarrow> dl1 ! k = prev)"
      by simp_all
    have lenc2: "length ct2 = length ct1"
      using s [unfolded a b]
      by (auto simp: deadlock_step_def record_deadlock_def ebind_Inr
               split: option.splits if_splits)
    from deadlock_step_counts [OF s [unfolded a b]]
    show "?Q b"
    proof
      assume "dl2 = dl1"
      with qa a b lenc2 show ?thesis by simp
    next
      assume "\<exists>j. dl2 = incr_from j (length positions) dl1"
      then obtain j where j: "dl2 = incr_from j (length positions) dl1" by blast
      have "\<forall>k<max_depth B. (\<exists>m::nat. dl2 ! k = fadd prev (Fin (of_nat m)))
                                  \<and> (length positions \<le> k \<longrightarrow> dl2 ! k = prev)"
      proof (intro allI impI conjI)
        fix k assume k: "k < max_depth B"
        with inv obtain m :: nat where m: "dl1 ! k = fadd prev (Fin (of_nat m))" by blast
        show "\<exists>m::nat. dl2 ! k = fadd prev (Fin (of_nat m))"
        proof (cases "j \<le> k \<and> k < length positions")
          case True
          with k len m have "dl2 ! k = fadd prev (Fin (of_nat (Suc m)))"
            by (simp add: j incr_from_nth fadd_Fin_assoc add.commute)
          then show ?thesis by blast
        next
          case False
          with k len m have "dl2 ! k = fadd prev (Fin (of_nat m))"
            by (auto simp: j incr_from_nth)
          then show ?thesis by blast
        qed
      next
        fix k assume k: "k < max_depth B" and ge: "length positions \<le> k"
        with inv len show "dl2 ! k = prev" by (simp add: j incr_from_nth)
      qed
      with len lenc lenc2 b j show ?thesis by (simp add: incr_from_length)
    qed
  qed
  from ok have run: "efold (deadlock_step W B handle positions cw pp pw)
                       (other_agents B handle) ?init = Inr (dl, ct)"
    by (simp add: find_deadlocks_def)
  from efold_invariant [where P = ?Q, OF run init step] show ?thesis by simp
qed

lemma vstack_T_Inr:
  assumes "vstack_T (r # rs) = Inr feats"
  shows "length feats = length r \<and> (\<forall>k<length r. feats ! k = map (\<lambda>row. row ! k) (r # rs))"
  using assms by (auto simp: vstack_T_def split: if_splits)

lemma np_transpose_column:
  assumes "k < length M" and "length (M ! k) = n"
  shows "map (\<lambda>row. row ! k) (np_transpose n M) = M ! k"
proof -
  have "map (\<lambda>row. row ! k) (np_transpose n M) = map (\<lambda>c. M ! k ! c) [0..<n]"
    using assms(1) by (simp add: np_transpose_def)
  also have "\<dots> = M ! k" using assms(2) map_nth [of "M ! k"] by simp
  finally show ?thesis .
qed

lemma fill_path_values_seeded:
  assumes ok: "fill_path_values W B handle pr pp pw ttd prev_d prev_n = Inr feats"
    and seed: "seed_num_agents (max_depth B) prev_n = Inr (replicate (max_depth B) seed)"
    and l4: "length seed = 4"
  shows "length feats = max_depth B
       \<and> (\<forall>k<max_depth B.
             (\<exists>m::nat. feats ! k ! 10 = fadd prev_d (Fin (of_nat m)))
           \<and> (\<forall>c<4. \<exists>m::nat. feats ! k ! c = fadd (seed ! c) (Fin (of_nat m)))
           \<and> (length (path pr) \<le> k \<longrightarrow>
                 feats ! k ! 10 = prev_d \<and> take 4 (feats ! k) = seed))"
proof -
  from ok obtain positions positions_weights path_weights na ad mf td cn dl dd where
    pos0: "(\<exists>prow. positions = take (length (path pr)) prow)
            \<or> positions = map pos_of (path pr)"
    and aip: "agents_in_path W B handle (path pr) path_weights prev_n = Inr (na, ad, mf)"
    and fd: "find_deadlocks W B handle positions positions_weights pp pw prev_d = Inr (dl, dd)"
    and vs: "vstack_T (na @ ad @ map (map Fin) mf @ [td, map Fin cn, dl, dd]) = Inr feats"
    unfolding fill_path_values_def
    by (auto simp: ebind_Inr split: if_splits) blast+
  from pos0 have pos: "length positions \<le> length (path pr)" by auto
  from agents_in_path_seeded [OF aip seed l4] obtain M where
    sd: "seeded (max_depth B) (length (path pr)) seed M" and na: "na = np_transpose 4 M"
    and l2: "length ad = 2" "length mf = 2"
    by blast
  from find_deadlocks_baseline [OF fd] have
    ldl: "length dl = max_depth B"
    and base: "\<forall>k<max_depth B. (\<exists>m::nat. dl ! k = fadd prev_d (Fin (of_nat m)))
                          \<and> (length positions \<le> k \<longrightarrow> dl ! k = prev_d)"
    by simp_all
  from sd have lM: "length M = max_depth B" by (simp add: seeded_def)
  obtain r0 r1 r2 r3 where na4: "na = [r0, r1, r2, r3]"
    by (simp add: na np_transpose_def upt_rec numeral_eq_Suc)
  obtain a0 a1 where ad2: "ad = [a0, a1]"
    using l2(1) by (cases ad; cases "tl ad") auto
  obtain m0 m1 where mf2: "mf = [m0, m1]"
    using l2(2) by (cases mf; cases "tl mf") auto
  have lr0: "length r0 = max_depth B"
    using na na4 lM by (simp add: np_transpose_def upt_rec numeral_eq_Suc)
  from vs have vs': "vstack_T (r0 # [r1, r2, r3, a0, a1, map Fin m0, map Fin m1,
                                     td, map Fin cn, dl, dd]) = Inr feats"
    by (simp add: na4 ad2 mf2)
  from vstack_T_Inr [OF vs'] lr0 have lf: "length feats = max_depth B"
    and rows: "\<forall>k<max_depth B. feats ! k = map (\<lambda>row. row ! k)
                 [r0, r1, r2, r3, a0, a1, map Fin m0, map Fin m1, td, map Fin cn, dl, dd]"
    by simp_all
  have cols: "\<forall>k<max_depth B. feats ! k ! 10 = dl ! k \<and> take 4 (feats ! k) = M ! k"
  proof (intro allI impI)
    fix k assume k: "k < max_depth B"
    with sd have l4k: "length (M ! k) = 4" by (simp add: seeded_def)
    from k lM have "map (\<lambda>row. row ! k) (np_transpose 4 M) = M ! k"
      by (intro np_transpose_column l4k) simp
    moreover have "np_transpose 4 M = [r0, r1, r2, r3]" using na na4 by simp
    ultimately have "[r0 ! k, r1 ! k, r2 ! k, r3 ! k] = M ! k"
      by simp
    with rows k show "feats ! k ! 10 = dl ! k \<and> take 4 (feats ! k) = M ! k"
      by simp
  qed
  show ?thesis
  proof (intro conjI allI impI)
    show "length feats = max_depth B" by (rule lf)
  next
    fix k assume k: "k < max_depth B"
    with base cols show "\<exists>m::nat. feats ! k ! 10 = fadd prev_d (Fin (of_nat m))" by simp
  next
    fix k c assume k: "k < max_depth B" and c: "c < (4::nat)"
    from sd k c obtain m :: nat where "M ! k ! c = fadd (seed ! c) (Fin (of_nat m))"
      unfolding seeded_def by blast
    moreover from cols k c have "feats ! k ! c = M ! k ! c"
      by (metis nth_take)
    ultimately show "\<exists>m::nat. feats ! k ! c = fadd (seed ! c) (Fin (of_nat m))" by auto
  next
    fix k assume k: "k < max_depth B" and ge: "length (path pr) \<le> k"
    with pos base cols show "feats ! k ! 10 = prev_d" by simp
  next
    fix k assume k: "k < max_depth B" and ge: "length (path pr) \<le> k"
    with sd have "M ! k = seed" by (simp add: seeded_def)
    with cols k show "take 4 (feats ! k) = seed" by simp
  qed
qed

text \<open>
  C3 (as amended). The deviation path number \<open>i\<close>, which fills row \<open>i + 1\<close> of the tensor, is
  computed for \<open>i \<ge> 1\<close> with the deadlock count of the shortest path at index \<open>i - 1\<close> as
  its baseline and with the four agent counts of the shortest path at index \<open>i - 1\<close> as the
  seed of every row of its counts; for \<open>i = 0\<close> the baseline is 0 and the counts start from
  zero. Every deadlock count and agent count of the row is its baseline or seed plus a
  number of increments of the deviation path itself, and the cells beyond the length of the
  deviation path hold the baseline and the seed unchanged.
\<close>

theorem deviation_row_seed:
  assumes ok: "deviation_row W B handle pp pw shortest_feats (i, dev) obs = Inr obs'"
    and l12: "1 \<le> i \<longrightarrow> length (shortest_feats ! (i - 1)) = 12"
  shows "(let base = (if 1 \<le> i then shortest_feats ! (i - 1) ! 10 else Fin 0);
              seed = (if 1 \<le> i then take 4 (shortest_feats ! (i - 1)) else replicate 4 (Fin 0))
          in i + 1 < length obs \<and> length (obs' ! (i + 1)) = max_depth B
           \<and> (\<forall>k<max_depth B.
                 (\<exists>m::nat. obs' ! (i + 1) ! k ! 10 = fadd base (Fin (of_nat m)))
               \<and> (\<forall>c<4. \<exists>m::nat. obs' ! (i + 1) ! k ! c = fadd (seed ! c) (Fin (of_nat m)))
               \<and> (length (path dev) \<le> k \<longrightarrow>
                     obs' ! (i + 1) ! k ! 10 = base \<and> take 4 (obs' ! (i + 1) ! k) = seed)))"
proof -
  let ?base = "if 1 \<le> i then shortest_feats ! (i - 1) ! 10 else Fin 0"
  let ?seed = "if 1 \<le> i then take 4 (shortest_feats ! (i - 1)) else replicate 4 (Fin 0)"
  let ?prev = "if 1 \<le> i then Some (take 4 (shortest_feats ! (i - 1))) else None"
  from ok obtain ttd dev_feats where
    fill: "fill_path_values W B handle dev pp pw ttd ?base ?prev = Inr dev_feats"
    and wr: "write_row obs (i + 1) dev_feats = Inr obs'"
    by (auto simp: deviation_row_def ebind_Inr lookup_Inr split: if_splits)
  from wr have lt: "i + 1 < length obs" and row: "obs' ! (i + 1) = dev_feats"
    by (auto simp: write_row_def split: if_splits)
  have l4: "length ?seed = 4" using l12 by simp
  have seed: "seed_num_agents (max_depth B) ?prev = Inr (replicate (max_depth B) ?seed)"
    using l12 by (simp add: seed_num_agents_def)
  from fill_path_values_seeded [OF fill seed l4] lt row show ?thesis
    unfolding Let_def by simp
qed

text \<open>
  The theorem on the sample scene: the deviation path 2 of agent 0, seeded from index 1 of
  the shortest path's features.
\<close>

theorem deviation_row_seed_witness:
  "deviation_row scene_world scene_builder 0
     [[(0, 0), (0, 2), (0, 4), (- 1, - 1)], [(0, 6), (0, 4), (0, 2), (0, 0)]]
     [[0, 2, 4, 0], [- 3, 3, 7, 11]]
     [[Fin 0, Fin 0, Fin 0, Fin 0, PInf, PInf, Fin 0, Fin 0, Fin 4, Fin 1, Fin 0, PInf],
      [Fin 0, Fin 0, Fin 0, Fin 0, PInf, PInf, Fin 0, Fin 0, Fin 2, Fin 1, Fin 1, Fin 6],
      [Fin 0, Fin 1, Fin 0, Fin 1, PInf, Fin (9 / 2), Fin 0, Fin 3, Fin 0, Fin 1, Fin 1, PInf],
      [Fin 0, Fin 0, Fin 0, Fin 0, PInf, PInf, Fin 0, Fin 0, Fin 0, Fin 0, Fin 0, PInf]]
     (2, scene_deviations ! 2) (replicate 4 [])
   = Inr [[], [], [],
          [[Fin 0, Fin 1, Fin 0, Fin 1, PInf, Fin (9 / 2), Fin 0, Fin 3, Fin 0, Fin 1, Fin 1, PInf],
           [Fin 0, Fin 0, Fin 0, Fin 0, PInf, PInf, Fin 0, Fin 0, Fin 0, Fin 0, Fin 1, PInf],
           [Fin 0, Fin 0, Fin 0, Fin 0, PInf, PInf, Fin 0, Fin 0, Fin 0, Fin 0, Fin 1, PInf],
           [Fin 0, Fin 0, Fin 0, Fin 0, PInf, PInf, Fin 0, Fin 0, Fin 0, Fin 0, Fin 1, PInf]]]
   \<and> (2::nat) + 1 < length (replicate 4 ([] :: fval list list))"
proof -
  have h: "deviation_row scene_world scene_builder 0
     [[(0, 0), (0, 2), (0, 4), (- 1, - 1)], [(0, 6), (0, 4), (0, 2), (0, 0)]]
     [[0, 2, 4, 0], [- 3, 3, 7, 11]]
     [[Fin 0, Fin 0, Fin 0, Fin 0, PInf, PInf, Fin 0, Fin 0, Fin 4, Fin 1, Fin 0, PInf],
      [Fin 0, Fin 0, Fin 0, Fin 0, PInf, PInf, Fin 0, Fin 0, Fin 2, Fin 1, Fin 1, Fin 6],
      [Fin 0, Fin 1, Fin 0, Fin 1, PInf, Fin (9 / 2), Fin 0, Fin 3, Fin 0, Fin 1, Fin 1, PInf],
      [Fin 0, Fin 0, Fin 0, Fin 0, PInf, PInf, Fin 0, Fin 0, Fin 0, Fin 0, Fin 0, PInf]]
     (2, scene_deviations ! 2) (replicate 4 [])
   = Inr [[], [], [],
          [[Fin 0, Fin 1, Fin 0, Fin 1, PInf, Fin (9 / 2), Fin 0, Fin 3, Fin 0, Fin 1, Fin 1, PInf],
           [Fin 0, Fin 0, Fin 0, Fin 0, PInf, PInf, Fin 0, Fin 0, Fin 0, Fin 0, Fin 1, PInf],
           [Fin 0, Fin 0, Fin 0, Fin 0, PInf, PInf, Fin 0, Fin 0, Fin 0, Fin 0, Fin 1, PInf],
           [Fin 0, Fin 0, Fin 0, Fin 0, PInf, PInf, Fin 0, Fin 0, Fin 0, Fin 0, Fin 1, PInf]]]"
    by code_simp
  have l: "(1::nat) \<le> 2 \<longrightarrow> length
     ([[Fin 0, Fin 0, Fin 0, Fin 0, PInf, PInf, Fin 0, Fin 0, Fin 4, Fin 1, Fin 0, PInf],
      [Fin 0, Fin 0, Fin 0, Fin 0, PInf, PInf, Fin 0, Fin 0, Fin 2, Fin 1, Fin 1, Fin 6],
      [Fin 0, Fin 1, Fin 0, Fin 1, PInf, Fin (9 / 2), Fin 0, Fin 3, Fin 0, Fin 1, Fin 1, PInf],
      [Fin 0, Fin 0, Fin 0, Fin 0, PInf, PInf, Fin 0, Fin 0, Fin 0, Fin 0, Fin 0, PInf]]
      ! (2 - 1)) = 12"
    by simp
  from deviation_row_seed [OF h l, unfolded Let_def]
  have "(2::nat) + 1 < length (replicate 4 ([] :: fval list list))"
    by (rule conjunct1)
  with h show ?thesis by (rule conjI)
qed

text \<open>
  C3 as stated fails on the sample scene. The deadlock counts of the shortest path (row 0)
  are 0, 1, 1, 0. Deviation path 1 starts at the cumulative weight of index 1 and fills
  row 2: its deadlock counts are all 0, the count at index 0 of the shortest path, not the
  count 1 at the node it branches from. Deviation path 2 fills row 3: its deadlock count at
  index 0, before its branch point, is 1, and the shortest path's count at index 0 is 0.
\<close>

theorem deviation_seed_counterexample:
  "map_sum id (\<lambda>T. (map (\<lambda>cell. cell ! 10) (T ! 0), map (\<lambda>cell. cell ! 10) (T ! 2),
                     map (\<lambda>cell. cell ! 10) (T ! 3)))
     (raw_observation scene_world scene_builder
        [Some (scene_shortest, scene_deviations), None] 0)
   = Inr ([Fin 0, Fin 1, Fin 1, Fin 0], [Fin 0, Fin 0, Fin 0, Fin 0],
          [Fin 1, Fin 1, Fin 1, Fin 1])
   \<and> shortest_cum_weights scene_builder ! 0 ! 1 = 2
   \<and> shortest_cum_weights scene_builder ! 0 ! 2 = 4"
  by code_simp

end
